theory Spec2Isabelle
  imports Main "HOL-Library.Monad_Syntax" "HOL-Library.Multiset"
begin

section \<open>Device memory, pointers and the operator interface\<close>

text \<open>
  The kernels of \<^verbatim>\<open>src/array/cuda/sddmm.cuh\<close> work on raw device pointers. A pointer
  is modelled as a region (the array it points into, absent for the null pointer) and an
  element offset into it. Pointer arithmetic moves the offset; a load through the null
  pointer or outside the region is a fault, written \<open>None\<close>. The feature, index and
  offset arrays are only read by the kernels, so a pointer can carry its region's contents.

  The index type \<^verbatim>\<open>Idx\<close>, \<^verbatim>\<open>int\<close> and \<^verbatim>\<open>int64_t\<close> are modelled as
  \<^typ>\<open>int\<close>: sizes and indices are taken to lie in the range of the index type, where the
  source's arithmetic does not overflow. The element type \<^verbatim>\<open>DType\<close> is a type variable.
\<close>

datatype 'a ptr = Ptr (region: "'a list option") (offset: int)

definition nullptr :: "'a ptr" where
  "nullptr = Ptr None 0"

text \<open>An array handed to a kernel: a pointer to the first element of its region.\<close>

definition array_ptr :: "'a list \<Rightarrow> 'a ptr" where
  "array_ptr xs = Ptr (Some xs) 0"

fun ptr_add :: "'a ptr \<Rightarrow> int \<Rightarrow> 'a ptr" where
  "ptr_add (Ptr r k) i = Ptr r (k + i)"

text \<open>\<^verbatim>\<open>_ldg(p)\<close>, and \<^verbatim>\<open>p[i]\<close> as \<open>ldg (ptr_add p i)\<close>: a read-only load.\<close>

fun ldg :: "'a ptr \<Rightarrow> 'a option" where
  "ldg (Ptr None k) = None"
| "ldg (Ptr (Some xs) k) = (if 0 \<le> k \<and> k < int (length xs) then Some (xs ! nat k) else None)"

text \<open>
  The operator functor \<^verbatim>\<open>BinaryOp\<close> comes from \<^verbatim>\<open>functor.cuh\<close>, which is outside this
  file: the kernels use its two flags and its \<^verbatim>\<open>Call\<close>, so it is a parameter of the model.
  \<open>Call\<close> receives the two window pointers and the reduction width; it may load through
  the pointers, hence its result is optional.
\<close>

record 'd BinaryOp =
  use_lhs :: bool
  use_rhs :: bool
  Call :: "'d ptr \<Rightarrow> 'd ptr \<Rightarrow> int \<Rightarrow> 'd option"

text \<open>
  The output buffer is the only memory the kernels write. The state of a launch is the
  buffer together with a trace of the executed inner-loop iterations: the edge index
  \<^verbatim>\<open>ty\<close>, the position \<^verbatim>\<open>tx\<close>, the flat index of the cell that was assigned and the
  value assigned to it.
\<close>

record 'd gmem =
  out_buf :: "'d list"
  writes :: "(int \<times> int \<times> int \<times> 'd) list"

text \<open>\<^verbatim>\<open>outoff[tx] = val\<close> with \<^verbatim>\<open>outoff = out + eid * out_len\<close>: the assignment of one cell.\<close>

definition store :: "int \<Rightarrow> int \<Rightarrow> int \<Rightarrow> 'd \<Rightarrow> 'd gmem \<Rightarrow> 'd gmem option" where
  "store ty tx outoff val s =
     (let i = outoff + tx in
      if 0 \<le> i \<and> i < int (length (out_buf s))
      then Some (s\<lparr>out_buf := (out_buf s)[nat i := val], writes := writes s @ [(ty, tx, i, val)]\<rparr>)
      else None)"

text \<open>
  The built-in variables of one execution unit: its block and thread index and the block and
  grid extents, on the two axes the kernels use.
\<close>

record thread =
  blockIdx_x :: nat
  blockIdx_y :: nat
  threadIdx_x :: nat
  threadIdx_y :: nat
  blockDim_x :: nat
  blockDim_y :: nat
  gridDim_x :: nat
  gridDim_y :: nat

section \<open>The kernels\<close>

text \<open>
  Both loops of both kernels have the shape
  \<^verbatim>\<open>while (i < n) { body; i += stride; }\<close>. With a stride that is not positive the loop
  does not end, so it is a partial function: \<open>None\<close> stands for a fault in the body or
  for a loop that never returns.
\<close>

partial_function (option) while_strided ::
  "int \<Rightarrow> int \<Rightarrow> (int \<Rightarrow> 's \<Rightarrow> 's option) \<Rightarrow> int \<Rightarrow> 's \<Rightarrow> 's option" where
  "while_strided n stride body i s =
     (if i < n then
        (case body i s of None \<Rightarrow> None
         | Some s' \<Rightarrow> while_strided n stride body (i + stride) s')
      else Some s)"

declare while_strided.simps [code]

text \<open>\<^verbatim>\<open>SDDMMCooKernel\<close>, lines 32 to 64, as run by one execution unit \<open>t\<close>.\<close>

definition SDDMMCooKernel ::
  "'d BinaryOp \<Rightarrow> bool \<Rightarrow> bool \<Rightarrow> 'd ptr \<Rightarrow> 'd ptr \<Rightarrow> int ptr \<Rightarrow> int ptr \<Rightarrow> int ptr \<Rightarrow>
   int \<Rightarrow> int \<Rightarrow> int \<Rightarrow> int \<Rightarrow> int ptr \<Rightarrow> int ptr \<Rightarrow> int \<Rightarrow> int \<Rightarrow> int \<Rightarrow>
   thread \<Rightarrow> 'd gmem \<Rightarrow> 'd gmem option" where
  "SDDMMCooKernel binop UseBcast UseIdx ufeat vfeat row col edge_map
      N M E reduce_size ubcast_off vbcast_off ufeat_len vfeat_len out_len t s0 =
     (let ty0 = int (blockIdx_y t * blockDim_y t + threadIdx_y t);
          stride_y = int (blockDim_y t * gridDim_y t)
      in while_strided E stride_y (\<lambda>ty s1. do {
           src \<leftarrow> ldg (ptr_add row ty);
           dst \<leftarrow> ldg (ptr_add col ty);
           eid \<leftarrow> (if UseIdx then ldg (ptr_add edge_map ty) else Some ty);
           let lhsoff = (if use_lhs binop then ptr_add ufeat (src * ufeat_len) else nullptr);
           let rhsoff = (if use_rhs binop then ptr_add vfeat (dst * vfeat_len) else nullptr);
           let outoff = eid * out_len;
           let tx0 = int (blockIdx_x t * blockDim_x t + threadIdx_x t);
           let stride_x = int (blockDim_x t * gridDim_x t);
           while_strided out_len stride_x (\<lambda>tx s. do {
             lhs_add \<leftarrow> (if UseBcast then ldg (ptr_add ubcast_off tx) else Some tx);
             rhs_add \<leftarrow> (if UseBcast then ldg (ptr_add vbcast_off tx) else Some tx);
             val \<leftarrow> Call binop (ptr_add lhsoff (lhs_add * reduce_size))
                               (ptr_add rhsoff (rhs_add * reduce_size)) reduce_size;
             store ty tx outoff val s
           }) tx0 s1
         }) ty0 s0)"

text \<open>
  \<^verbatim>\<open>BinarySearchSrc\<close>, lines 68 to 84. The loop narrows \<open>[lo, hi]\<close> and ends for every
  input, since \<open>lo \<le> mid < hi\<close>. \<^verbatim>\<open>>> 1\<close> is \<open>drop_bit 1\<close>.
\<close>

function BinarySearchSrc_loop :: "int ptr \<Rightarrow> int \<Rightarrow> int \<Rightarrow> int \<Rightarrow> (int \<times> int) option" where
  "BinarySearchSrc_loop array eid lo hi =
     (if lo < hi then
        (let mid = drop_bit 1 (lo + hi) in
         case ldg (ptr_add array mid) of None \<Rightarrow> None
         | Some v \<Rightarrow>
             if v \<le> eid then BinarySearchSrc_loop array eid (mid + 1) hi
             else BinarySearchSrc_loop array eid lo mid)
      else Some (lo, hi))"
  by pat_completeness auto
termination
  by (relation "measure (\<lambda>(array, eid, lo, hi). nat (hi - lo))")
     (auto simp: drop_bit_eq_div)

declare BinarySearchSrc_loop.simps [simp del]

definition BinarySearchSrc :: "int ptr \<Rightarrow> int \<Rightarrow> int \<Rightarrow> int option" where
  "BinarySearchSrc array len eid =
     (case BinarySearchSrc_loop array eid 0 (len - 1) of None \<Rightarrow> None
      | Some (lo, hi) \<Rightarrow>
          (case ldg (ptr_add array hi) of None \<Rightarrow> None
           | Some v \<Rightarrow> if v = eid then Some hi else Some (hi - 1)))"

text \<open>\<^verbatim>\<open>SDDMMCsrKernel\<close>, lines 97 to 127, as run by one execution unit \<open>t\<close>.\<close>

definition SDDMMCsrKernel ::
  "'d BinaryOp \<Rightarrow> bool \<Rightarrow> bool \<Rightarrow> 'd ptr \<Rightarrow> 'd ptr \<Rightarrow> int ptr \<Rightarrow> int ptr \<Rightarrow> int ptr \<Rightarrow>
   int \<Rightarrow> int \<Rightarrow> int \<Rightarrow> int \<Rightarrow> int ptr \<Rightarrow> int ptr \<Rightarrow> int \<Rightarrow> int \<Rightarrow> int \<Rightarrow>
   thread \<Rightarrow> 'd gmem \<Rightarrow> 'd gmem option" where
  "SDDMMCsrKernel binop UseBcast UseIdx ufeat vfeat indptr indices edge_map
      N M E reduce_size ubcast_off vbcast_off ufeat_len vfeat_len out_len t s0 =
     (let ty0 = int (blockIdx_y t * blockDim_y t + threadIdx_y t);
          stride_y = int (blockDim_y t * gridDim_y t)
      in while_strided E stride_y (\<lambda>ty s1. do {
           src \<leftarrow> BinarySearchSrc indptr (N + 1) ty;
           dst \<leftarrow> ldg (ptr_add indices ty);
           eid \<leftarrow> (if UseIdx then ldg (ptr_add edge_map ty) else Some ty);
           let tx0 = int (blockIdx_x t * blockDim_x t + threadIdx_x t);
           let stride_x = int (blockDim_x t * gridDim_x t);
           let lhsoff = (if use_lhs binop then ptr_add ufeat (src * ufeat_len) else nullptr);
           let rhsoff = (if use_rhs binop then ptr_add vfeat (dst * vfeat_len) else nullptr);
           let outoff = eid * out_len;
           while_strided out_len stride_x (\<lambda>tx s. do {
             lhs_add \<leftarrow> (if UseBcast then ldg (ptr_add ubcast_off tx) else Some tx);
             rhs_add \<leftarrow> (if UseBcast then ldg (ptr_add vbcast_off tx) else Some tx);
             val \<leftarrow> Call binop (ptr_add lhsoff (lhs_add * reduce_size))
                               (ptr_add rhsoff (rhs_add * reduce_size)) reduce_size;
             store ty tx outoff val s
           }) tx0 s1
         }) ty0 s0)"

section \<open>Launching a kernel on a grid\<close>

text \<open>
  \<^verbatim>\<open>kernel<<<nblks, nthrs>>>(...)\<close> starts one execution unit for every block index below
  the grid extents and every thread index below the block extents.
\<close>

definition grid_threads :: "nat \<Rightarrow> nat \<Rightarrow> nat \<Rightarrow> nat \<Rightarrow> thread list" where
  "grid_threads nbx nby ntx nty =
     map (\<lambda>(by, bx, ty, tx).
            \<lparr>blockIdx_x = bx, blockIdx_y = by, threadIdx_x = tx, threadIdx_y = ty,
             blockDim_x = ntx, blockDim_y = nty, gridDim_x = nbx, gridDim_y = nby\<rparr>)
       (List.product [0..<nby] (List.product [0..<nbx] (List.product [0..<nty] [0..<ntx])))"

text \<open>
  The units do not communicate, so a launch is modelled by running them one after the other
  in the order \<open>sched\<close>; a schedule of a grid is any arrangement of its units.
\<close>

definition launch :: "(thread \<Rightarrow> 's \<Rightarrow> 's option) \<Rightarrow> thread list \<Rightarrow> 's \<Rightarrow> 's option" where
  "launch kern sched s = fold (\<lambda>t r. Option.bind r (kern t)) sched (Some s)"

definition schedule_of :: "nat \<Rightarrow> nat \<Rightarrow> nat \<Rightarrow> nat \<Rightarrow> thread list \<Rightarrow> bool" where
  "schedule_of nbx nby ntx nty sched \<longleftrightarrow> mset sched = mset (grid_threads nbx nby ntx nty)"

section \<open>What a launch is expected to do\<close>

text \<open>The values \<open>i, i + stride, i + 2 * stride, ...\<close> below \<open>n\<close>, for a positive stride.\<close>

function strided :: "int \<Rightarrow> int \<Rightarrow> int \<Rightarrow> int list" where
  "strided i stride n = (if i < n \<and> 0 < stride then i # strided (i + stride) stride n else [])"
  by pat_completeness auto
termination
  by (relation "measure (\<lambda>(i, stride, n). nat (n - i))") auto

declare strided.simps [simp del]

text \<open>The (edge, position) pairs that fall to one execution unit, in the order of its loops.\<close>

definition thread_cells :: "int \<Rightarrow> int \<Rightarrow> thread \<Rightarrow> (int \<times> int) list" where
  "thread_cells E out_len t =
     List.product
       (strided (int (blockIdx_y t * blockDim_y t + threadIdx_y t))
                (int (blockDim_y t * gridDim_y t)) E)
       (strided (int (blockIdx_x t * blockDim_x t + threadIdx_x t))
                (int (blockDim_x t * gridDim_x t)) out_len)"

text \<open>The assignment of the cell of edge \<open>e\<close> and position \<open>p\<close>, when nothing faults.\<close>

definition put_cell ::
  "(int \<Rightarrow> int) \<Rightarrow> (int \<Rightarrow> int \<Rightarrow> 'd) \<Rightarrow> int \<Rightarrow> int \<times> int \<Rightarrow> 'd gmem \<Rightarrow> 'd gmem" where
  "put_cell eidf valf out_len c s =
     (let i = eidf (fst c) * out_len + snd c in
      s\<lparr>out_buf := (out_buf s)[nat i := valf (fst c) (snd c)],
        writes := writes s @ [(fst c, snd c, i, valf (fst c) (snd c))]\<rparr>)"

text \<open>The row id, the offsets and the operator call of one cell, as the kernels compute them.\<close>

definition edge_id :: "bool \<Rightarrow> int ptr \<Rightarrow> int \<Rightarrow> int option" where
  "edge_id UseIdx edge_map ty = (if UseIdx then ldg (ptr_add edge_map ty) else Some ty)"

definition cell_val ::
  "'d BinaryOp \<Rightarrow> bool \<Rightarrow> 'd ptr \<Rightarrow> 'd ptr \<Rightarrow> int \<Rightarrow> int ptr \<Rightarrow> int ptr \<Rightarrow> int \<Rightarrow> int \<Rightarrow>
   int \<Rightarrow> int \<Rightarrow> int \<Rightarrow> 'd option" where
  "cell_val binop UseBcast ufeat vfeat reduce_size ubcast_off vbcast_off ufeat_len vfeat_len
      src dst tx =
     do {
       lhs_add \<leftarrow> (if UseBcast then ldg (ptr_add ubcast_off tx) else Some tx);
       rhs_add \<leftarrow> (if UseBcast then ldg (ptr_add vbcast_off tx) else Some tx);
       Call binop
         (ptr_add (if use_lhs binop then ptr_add ufeat (src * ufeat_len) else nullptr)
                  (lhs_add * reduce_size))
         (ptr_add (if use_rhs binop then ptr_add vfeat (dst * vfeat_len) else nullptr)
                  (rhs_add * reduce_size))
         reduce_size
     }"

text \<open>
  The inputs on which a kernel has defined behaviour: for every edge below \<open>E\<close> the
  endpoints and the row id load, the output row lies inside the buffer of \<open>out_size\<close>
  cells, and for every position below \<open>out_len\<close> the offsets load and the operator returns.
  \<open>src_of\<close> is the endpoint resolver of the encoding.
\<close>

definition kernel_ok ::
  "'d BinaryOp \<Rightarrow> bool \<Rightarrow> bool \<Rightarrow> 'd ptr \<Rightarrow> 'd ptr \<Rightarrow> (int \<Rightarrow> int option) \<Rightarrow> int ptr \<Rightarrow> int ptr \<Rightarrow>
   int \<Rightarrow> int \<Rightarrow> int ptr \<Rightarrow> int ptr \<Rightarrow> int \<Rightarrow> int \<Rightarrow> int \<Rightarrow> int \<Rightarrow> bool" where
  "kernel_ok binop UseBcast UseIdx ufeat vfeat src_of col edge_map
      E reduce_size ubcast_off vbcast_off ufeat_len vfeat_len out_len out_size \<longleftrightarrow>
     (\<forall>e \<in> set [0..E - 1].
        case (src_of e, ldg (ptr_add col e), edge_id UseIdx edge_map e) of
          (Some src, Some dst, Some eid) \<Rightarrow>
             0 \<le> eid \<and> (eid + 1) * out_len \<le> out_size \<and>
             (\<forall>p \<in> set [0..out_len - 1].
                cell_val binop UseBcast ufeat vfeat reduce_size ubcast_off vbcast_off
                  ufeat_len vfeat_len src dst p \<noteq> None)
        | _ \<Rightarrow> False)"

definition coo_ok ::
  "'d BinaryOp \<Rightarrow> bool \<Rightarrow> bool \<Rightarrow> 'd ptr \<Rightarrow> 'd ptr \<Rightarrow> int ptr \<Rightarrow> int ptr \<Rightarrow> int ptr \<Rightarrow>
   int \<Rightarrow> int \<Rightarrow> int ptr \<Rightarrow> int ptr \<Rightarrow> int \<Rightarrow> int \<Rightarrow> int \<Rightarrow> int \<Rightarrow> bool" where
  "coo_ok binop UseBcast UseIdx ufeat vfeat row col edge_map
      E reduce_size ubcast_off vbcast_off ufeat_len vfeat_len out_len out_size =
     kernel_ok binop UseBcast UseIdx ufeat vfeat (\<lambda>e. ldg (ptr_add row e)) col edge_map
      E reduce_size ubcast_off vbcast_off ufeat_len vfeat_len out_len out_size"


text \<open>A permutation \<open>edge_map\<close> sends distinct edges to distinct output rows.\<close>

definition edge_ids_distinct :: "bool \<Rightarrow> int ptr \<Rightarrow> int \<Rightarrow> bool" where
  "edge_ids_distinct UseIdx edge_map E \<longleftrightarrow> distinct (map (edge_id UseIdx edge_map) [0..E - 1])"

text \<open>Further notions used to state what a launch computes.\<close>

definition out_row :: "bool \<Rightarrow> int ptr \<Rightarrow> int \<Rightarrow> int" where
  "out_row UseIdx edge_map e = the (edge_id UseIdx edge_map e)"

definition out_val ::
  "'d BinaryOp \<Rightarrow> bool \<Rightarrow> 'd ptr \<Rightarrow> 'd ptr \<Rightarrow> (int \<Rightarrow> int option) \<Rightarrow> int ptr \<Rightarrow>
   int \<Rightarrow> int ptr \<Rightarrow> int ptr \<Rightarrow> int \<Rightarrow> int \<Rightarrow> int \<Rightarrow> int \<Rightarrow> 'd" where
  "out_val binop UseBcast ufeat vfeat src_of col reduce_size ubcast_off vbcast_off
      ufeat_len vfeat_len e p =
     the (cell_val binop UseBcast ufeat vfeat reduce_size ubcast_off vbcast_off
            ufeat_len vfeat_len (the (src_of e)) (the (ldg (ptr_add col e))) p)"

definition edge_body ::
  "'d BinaryOp \<Rightarrow> bool \<Rightarrow> bool \<Rightarrow> 'd ptr \<Rightarrow> 'd ptr \<Rightarrow> (int \<Rightarrow> int option) \<Rightarrow> int ptr \<Rightarrow> int ptr \<Rightarrow>
   int \<Rightarrow> int ptr \<Rightarrow> int ptr \<Rightarrow> int \<Rightarrow> int \<Rightarrow> int \<Rightarrow> int \<Rightarrow> int \<Rightarrow>
   int \<Rightarrow> 'd gmem \<Rightarrow> 'd gmem option" where
  "edge_body binop UseBcast UseIdx ufeat vfeat src_of col edge_map
      reduce_size ubcast_off vbcast_off ufeat_len vfeat_len out_len tx0 stride_x ty s1 =
     do {
       src \<leftarrow> src_of ty;
       dst \<leftarrow> ldg (ptr_add col ty);
       eid \<leftarrow> edge_id UseIdx edge_map ty;
       while_strided out_len stride_x (\<lambda>tx s. do {
           val \<leftarrow> cell_val binop UseBcast ufeat vfeat reduce_size ubcast_off vbcast_off
                    ufeat_len vfeat_len src dst tx;
           store ty tx (eid * out_len) val s
         }) tx0 s1
     }"

definition launch_cells :: "int \<Rightarrow> int \<Rightarrow> thread list \<Rightarrow> (int \<times> int) list" where
  "launch_cells E out_len sched = concat (map (thread_cells E out_len) sched)"

definition cell_index :: "(int \<Rightarrow> int) \<Rightarrow> int \<Rightarrow> int \<times> int \<Rightarrow> int" where
  "cell_index eidf out_len c = eidf (fst c) * out_len + snd c"


text \<open>
  Modelled from the spec: the elementwise multiply operator of the operator catalog
  (\<^verbatim>\<open>functor.cuh\<close>, not part of this file). It reads both sides, and with a reduction width
  of 1 its call multiplies the first element of the two windows.
\<close>

definition Mul :: "int BinaryOp" where
  "Mul = \<lparr>use_lhs = True, use_rhs = True,
          Call = (\<lambda>lhs rhs len. do { a \<leftarrow> ldg lhs; b \<leftarrow> ldg rhs; Some (a * b) })\<rparr>"

text \<open>
  Modelled from the spec: the "copy destination feature" operator of the catalog, which
  ignores the source side (\<open>use_lhs\<close> is false) and returns the first element of the
  destination window.
\<close>

definition CopyRhs :: "int BinaryOp" where
  "CopyRhs = \<lparr>use_lhs = False, use_rhs = True, Call = (\<lambda>lhs rhs len. ldg rhs)\<rparr>"





section \<open>Strided loops\<close>

lemma strided_step: "i < n \<Longrightarrow> 0 < stride \<Longrightarrow> strided i stride n = i # strided (i + stride) stride n"
  by (subst strided.simps) simp

lemma strided_stop: "\<not> (i < n \<and> 0 < stride) \<Longrightarrow> strided i stride n = []"
  by (subst strided.simps) simp

lemma strided_set:
  "0 < stride \<Longrightarrow> set (strided i stride n) = {j. i \<le> j \<and> j < n \<and> (j - i) mod stride = 0}"
proof (induction i stride n rule: strided.induct)
  case (1 i stride n)
  show ?case
  proof (cases "i < n")
    case True
    have step: "\<And>j. (i \<le> j \<and> (j - i) mod stride = 0) \<longleftrightarrow> (j = i \<or> (i + stride \<le> j \<and> (j - (i + stride)) mod stride = 0))"
    proof -
      fix j
      have m: "(j - (i + stride)) mod stride = (j - i) mod stride"
        by (metis diff_diff_eq minus_mod_self2)
      show "(i \<le> j \<and> (j - i) mod stride = 0) \<longleftrightarrow> (j = i \<or> (i + stride \<le> j \<and> (j - (i + stride)) mod stride = 0))"
      proof
        assume a: "i \<le> j \<and> (j - i) mod stride = 0"
        show "j = i \<or> (i + stride \<le> j \<and> (j - (i + stride)) mod stride = 0)"
        proof (cases "j = i")
          case False
          with a have "0 < j - i" by simp
          moreover from a have "stride dvd (j - i)" by (simp add: dvd_eq_mod_eq_0)
          ultimately have "stride \<le> j - i" using zdvd_imp_le by blast
          with a m show ?thesis by simp
        qed simp
      next
        assume "j = i \<or> (i + stride \<le> j \<and> (j - (i + stride)) mod stride = 0)"
        with m \<open>0 < stride\<close> show "i \<le> j \<and> (j - i) mod stride = 0" by auto
      qed
    qed
    from True 1 have "set (strided i stride n) = insert i {j. i + stride \<le> j \<and> j < n \<and> (j - (i + stride)) mod stride = 0}"
      by (simp add: strided_step)
    also have "\<dots> = {j. i \<le> j \<and> j < n \<and> (j - i) mod stride = 0}"
    proof (rule set_eqI)
      fix j
      show "j \<in> insert i {j. i + stride \<le> j \<and> j < n \<and> (j - (i + stride)) mod stride = 0}
          \<longleftrightarrow> j \<in> {j. i \<le> j \<and> j < n \<and> (j - i) mod stride = 0}"
      proof (cases "j = i")
        case True
        with \<open>i < n\<close> show ?thesis by simp
      next
        case False
        with step[of j]
        have eq: "(i + stride \<le> j \<and> (j - (i + stride)) mod stride = 0) \<longleftrightarrow>
                  (i \<le> j \<and> (j - i) mod stride = 0)"
          by simp
        have "(i + stride \<le> j \<and> j < n \<and> (j - (i + stride)) mod stride = 0) \<longleftrightarrow>
              ((i + stride \<le> j \<and> (j - (i + stride)) mod stride = 0) \<and> j < n)"
          by blast
        also have "\<dots> \<longleftrightarrow> ((i \<le> j \<and> (j - i) mod stride = 0) \<and> j < n)"
          by (simp only: eq)
        also have "\<dots> \<longleftrightarrow> (i \<le> j \<and> j < n \<and> (j - i) mod stride = 0)"
          by blast
        finally show ?thesis using False unfolding insert_iff mem_Collect_eq by simp
      qed
    qed
    finally show ?thesis .
  next
    case False
    then show ?thesis by (auto simp: strided_stop)
  qed
qed

lemma strided_distinct: "distinct (strided i stride n)"
proof (induction i stride n rule: strided.induct)
  case (1 i stride n)
  show ?case
  proof (cases "i < n \<and> 0 < stride")
    case True
    then have "i \<notin> set (strided (i + stride) stride n)"
      by (simp add: strided_set)
    with True 1 show ?thesis by (simp add: strided_step)
  next
    case False
    then show ?thesis by (simp add: strided_stop)
  qed
qed

lemma while_strided_fold:
  assumes "0 < stride" and "I s"
    and "\<And>i s. i \<in> set (strided i0 stride n) \<Longrightarrow> I s \<Longrightarrow> body i s = Some (g i s) \<and> I (g i s)"
  shows "while_strided n stride body i0 s = Some (fold g (strided i0 stride n) s)"
  using assms
proof (induction i0 stride n arbitrary: s rule: strided.induct)
  case (1 i stride n)
  show ?case
  proof (cases "i < n")
    case True
    with 1(2) have mem: "i \<in> set (strided i stride n)" by (simp add: strided_step)
    from 1(4)[OF mem 1(3)] have b: "body i s = Some (g i s)" and inv: "I (g i s)" by simp_all
    have "while_strided n stride body (i + stride) (g i s) =
          Some (fold g (strided (i + stride) stride n) (g i s))"
    proof (rule 1(1))
      show "i < n \<and> 0 < stride" using True 1(2) by simp
      show "0 < stride" by fact
      show "I (g i s)" by fact
      fix j s' assume "j \<in> set (strided (i + stride) stride n)" "I s'"
      then show "body j s' = Some (g j s') \<and> I (g j s')"
        using 1(4)[of j s'] True 1(2) by (simp add: strided_step)
    qed
    then show ?thesis
      using True 1(2) b by (subst while_strided.simps) (simp add: strided_step)
  next
    case False
    then show ?thesis by (subst while_strided.simps) (simp add: strided_stop)
  qed
qed

lemma while_strided_cong:
  assumes "0 < stride"
    and "\<And>i s. i0 \<le> i \<Longrightarrow> i < n \<Longrightarrow> body i s = body' i s"
  shows "while_strided n stride body i0 s = while_strided n stride body' i0 s"
  using assms
proof (induction i0 stride n arbitrary: s rule: strided.induct)
  case (1 i stride n)
  show ?case
  proof (cases "i < n")
    case True
    have b: "body i s = body' i s" using 1(3)[of i s] True by simp
    have ih: "\<And>s'. while_strided n stride body (i + stride) s' = while_strided n stride body' (i + stride) s'"
    proof (rule 1(1))
      show "i < n \<and> 0 < stride" using True 1(2) by simp
      show "0 < stride" by fact
      fix j s' assume "i + stride \<le> j" "j < n"
      then show "body j s' = body' j s'" using 1(3)[of j s'] 1(2) by simp
    qed
    have L: "while_strided n stride body i s =
        (case body i s of None \<Rightarrow> None | Some s' \<Rightarrow> while_strided n stride body (i + stride) s')"
      using True by (subst while_strided.simps) simp
    have R: "while_strided n stride body' i s =
        (case body' i s of None \<Rightarrow> None | Some s' \<Rightarrow> while_strided n stride body' (i + stride) s')"
      using True by (subst while_strided.simps) simp
    show ?thesis
      unfolding L R b by (cases "body' i s") (simp_all add: ih)
  next
    case False
    have L: "while_strided n stride body i s = Some s"
      using False by (subst while_strided.simps) simp
    have R: "while_strided n stride body' i s = Some s"
      using False by (subst while_strided.simps) simp
    show ?thesis unfolding L R ..
  qed
qed

lemma SDDMMCooKernel_edge_body:
  "SDDMMCooKernel binop UseBcast UseIdx ufeat vfeat row col edge_map
      N M E reduce_size ubcast_off vbcast_off ufeat_len vfeat_len out_len t s0 =
   while_strided E (int (blockDim_y t * gridDim_y t))
     (edge_body binop UseBcast UseIdx ufeat vfeat (\<lambda>ty. ldg (ptr_add row ty)) col edge_map
        reduce_size ubcast_off vbcast_off ufeat_len vfeat_len out_len
        (int (blockIdx_x t * blockDim_x t + threadIdx_x t)) (int (blockDim_x t * gridDim_x t)))
     (int (blockIdx_y t * blockDim_y t + threadIdx_y t)) s0"
  unfolding SDDMMCooKernel_def edge_body_def cell_val_def edge_id_def Let_def
  by (simp only: bind_assoc)

lemma SDDMMCsrKernel_edge_body:
  "SDDMMCsrKernel binop UseBcast UseIdx ufeat vfeat indptr indices edge_map
      N M E reduce_size ubcast_off vbcast_off ufeat_len vfeat_len out_len t s0 =
   while_strided E (int (blockDim_y t * gridDim_y t))
     (edge_body binop UseBcast UseIdx ufeat vfeat (BinarySearchSrc indptr (N + 1)) indices edge_map
        reduce_size ubcast_off vbcast_off ufeat_len vfeat_len out_len
        (int (blockIdx_x t * blockDim_x t + threadIdx_x t)) (int (blockDim_x t * gridDim_x t)))
     (int (blockIdx_y t * blockDim_y t + threadIdx_y t)) s0"
  unfolding SDDMMCsrKernel_def edge_body_def cell_val_def edge_id_def Let_def
  by (simp only: bind_assoc)

lemma fold_product:
  "fold f (List.product es ps) s = fold (\<lambda>e. fold (\<lambda>p. f (e, p)) ps) es s"
proof (induction es arbitrary: s)
  case Nil
  show ?case by simp
next
  case (Cons e es)
  have "fold f (map (Pair e) ps) s = fold (\<lambda>p. f (e, p)) ps s"
    by (simp add: fold_map comp_def)
  then show ?case by (simp add: Cons)
qed

lemma put_cell_length [simp]:
  "length (out_buf (put_cell eidf valf out_len c s)) = length (out_buf s)"
  by (simp add: put_cell_def Let_def)

lemma fold_put_cell_length [simp]:
  "length (out_buf (fold (put_cell eidf valf out_len) cs s)) = length (out_buf s)"
  by (induction cs arbitrary: s) simp_all

lemma fold_put_cell_row_length [simp]:
  "length (out_buf (fold (\<lambda>p. put_cell eidf valf out_len (e, p)) ps s)) = length (out_buf s)"
  by (induction ps arbitrary: s) simp_all

lemma store_put_cell:
  assumes "0 \<le> eidf e * out_len + p" and "eidf e * out_len + p < int (length (out_buf s))"
  shows "store e p (eidf e * out_len) (valf e p) s = Some (put_cell eidf valf out_len (e, p) s)"
  using assms by (simp add: store_def put_cell_def Let_def)

lemma row_in_bounds:
  fixes eid out_len p L :: int
  assumes "0 \<le> eid" and "(eid + 1) * out_len \<le> L" and "0 \<le> p" and "p < out_len"
  shows "0 \<le> eid * out_len + p \<and> eid * out_len + p < L"
proof -
  have "0 \<le> eid * out_len" using assms by simp
  moreover have "(eid + 1) * out_len = eid * out_len + out_len" by (simp add: algebra_simps)
  ultimately show ?thesis using assms by simp
qed

lemma strided_bounds: "j \<in> set (strided i stride n) \<Longrightarrow> i \<le> j \<and> j < n"
  by (cases "0 < stride") (simp_all add: strided_set strided_stop)

lemma edge_body_run:
  fixes s :: "'d gmem"
  assumes ok: "kernel_ok binop UseBcast UseIdx ufeat vfeat src_of col edge_map
      E reduce_size ubcast_off vbcast_off ufeat_len vfeat_len out_len (int (length (out_buf s)))"
    and e: "0 \<le> e" "e < E" and st: "0 < stride_x" and tx0: "0 \<le> tx0"
  shows "edge_body binop UseBcast UseIdx ufeat vfeat src_of col edge_map
      reduce_size ubcast_off vbcast_off ufeat_len vfeat_len out_len tx0 stride_x e s =
    Some (fold (\<lambda>p. put_cell (out_row UseIdx edge_map)
                  (out_val binop UseBcast ufeat vfeat src_of col reduce_size ubcast_off vbcast_off
                     ufeat_len vfeat_len) out_len (e, p))
            (strided tx0 stride_x out_len) s)"
proof -
  let ?L = "int (length (out_buf s))"
  let ?valf = "out_val binop UseBcast ufeat vfeat src_of col reduce_size ubcast_off vbcast_off
                     ufeat_len vfeat_len"
  let ?eidf = "out_row UseIdx edge_map"
  from e have mem: "e \<in> set [0..E - 1]" by simp
  from ok mem obtain src dst eid where
    src: "src_of e = Some src" and dst: "ldg (ptr_add col e) = Some dst"
    and eid: "edge_id UseIdx edge_map e = Some eid"
    and bounds: "0 \<le> eid" "(eid + 1) * out_len \<le> ?L"
    and calls: "\<forall>p \<in> set [0..out_len - 1].
                cell_val binop UseBcast ufeat vfeat reduce_size ubcast_off vbcast_off
                  ufeat_len vfeat_len src dst p \<noteq> None"
    unfolding kernel_ok_def by (fastforce split: option.splits)
  have row: "?eidf e = eid" by (simp add: out_row_def eid)
  have inner: "while_strided out_len stride_x (\<lambda>tx s'. do {
           val \<leftarrow> cell_val binop UseBcast ufeat vfeat reduce_size ubcast_off vbcast_off
                    ufeat_len vfeat_len src dst tx;
           store e tx (eid * out_len) val s'
         }) tx0 s =
      Some (fold (\<lambda>p. put_cell ?eidf ?valf out_len (e, p)) (strided tx0 stride_x out_len) s)"
  proof (rule while_strided_fold[where I = "\<lambda>s'. length (out_buf s') = length (out_buf s)"])
    show "0 < stride_x" by fact
    show "length (out_buf s) = length (out_buf s)" ..
    fix p and s' :: "'d gmem"
    assume p: "p \<in> set (strided tx0 stride_x out_len)"
      and len: "length (out_buf s') = length (out_buf s)"
    from strided_bounds[OF p] tx0 have pr: "0 \<le> p" "p < out_len" by simp_all
    then have "p \<in> set [0..out_len - 1]" by simp
    with calls obtain v where v: "cell_val binop UseBcast ufeat vfeat reduce_size ubcast_off
        vbcast_off ufeat_len vfeat_len src dst p = Some v" by blast
    have val: "?valf e p = v" by (simp add: out_val_def src dst v)
    from row_in_bounds[OF bounds pr]
    have "0 \<le> ?eidf e * out_len + p" "?eidf e * out_len + p < int (length (out_buf s'))"
      by (simp_all add: row len)
    from store_put_cell[where eidf = ?eidf and valf = ?valf and e = e and p = p
        and out_len = out_len and s = s', OF this]
    have "store e p (eid * out_len) v s' = Some (put_cell ?eidf ?valf out_len (e, p) s')"
      by (simp add: row val)
    then show "do {
           val \<leftarrow> cell_val binop UseBcast ufeat vfeat reduce_size ubcast_off vbcast_off
                    ufeat_len vfeat_len src dst p;
           store e p (eid * out_len) val s'
         } = Some (put_cell ?eidf ?valf out_len (e, p) s') \<and>
         length (out_buf (put_cell ?eidf ?valf out_len (e, p) s')) = length (out_buf s)"
      by (simp add: v len)
  qed
  show ?thesis
    unfolding edge_body_def by (simp add: src dst eid inner)
qed

lemma thread_run:
  fixes s :: "'d gmem"
  assumes ok: "kernel_ok binop UseBcast UseIdx ufeat vfeat src_of col edge_map
      E reduce_size ubcast_off vbcast_off ufeat_len vfeat_len out_len (int (length (out_buf s)))"
    and sx: "0 < blockDim_x t * gridDim_x t" and sy: "0 < blockDim_y t * gridDim_y t"
  shows "while_strided E (int (blockDim_y t * gridDim_y t))
     (edge_body binop UseBcast UseIdx ufeat vfeat src_of col edge_map
        reduce_size ubcast_off vbcast_off ufeat_len vfeat_len out_len
        (int (blockIdx_x t * blockDim_x t + threadIdx_x t)) (int (blockDim_x t * gridDim_x t)))
     (int (blockIdx_y t * blockDim_y t + threadIdx_y t)) s =
    Some (fold (put_cell (out_row UseIdx edge_map)
                  (out_val binop UseBcast ufeat vfeat src_of col reduce_size ubcast_off vbcast_off
                     ufeat_len vfeat_len) out_len)
            (thread_cells E out_len t) s)"
proof -
  let ?put = "put_cell (out_row UseIdx edge_map)
                  (out_val binop UseBcast ufeat vfeat src_of col reduce_size ubcast_off vbcast_off
                     ufeat_len vfeat_len) out_len"
  let ?tx0 = "int (blockIdx_x t * blockDim_x t + threadIdx_x t)"
  let ?ty0 = "int (blockIdx_y t * blockDim_y t + threadIdx_y t)"
  let ?sx = "int (blockDim_x t * gridDim_x t)"
  let ?sy = "int (blockDim_y t * gridDim_y t)"
  have "while_strided E ?sy
     (edge_body binop UseBcast UseIdx ufeat vfeat src_of col edge_map
        reduce_size ubcast_off vbcast_off ufeat_len vfeat_len out_len ?tx0 ?sx) ?ty0 s =
     Some (fold (\<lambda>e. fold (\<lambda>p. ?put (e, p)) (strided ?tx0 ?sx out_len)) (strided ?ty0 ?sy E) s)"
  proof (rule while_strided_fold[where I = "\<lambda>s'. length (out_buf s') = length (out_buf s)"])
    show "0 < ?sy" using sy by (simp only: of_nat_0_less_iff)
    show "length (out_buf s) = length (out_buf s)" ..
    fix e and s' :: "'d gmem"
    assume e: "e \<in> set (strided ?ty0 ?sy E)"
      and len: "length (out_buf s') = length (out_buf s)"
    have "0 \<le> ?ty0" by (rule of_nat_0_le_iff)
    with strided_bounds[OF e] have er: "0 \<le> e" "e < E" by linarith+
    from ok len have ok': "kernel_ok binop UseBcast UseIdx ufeat vfeat src_of col edge_map
      E reduce_size ubcast_off vbcast_off ufeat_len vfeat_len out_len (int (length (out_buf s')))"
      by simp
    have "0 < ?sx" "0 \<le> ?tx0" using sx by (simp_all only: of_nat_0_less_iff of_nat_0_le_iff)
    from edge_body_run[OF ok' er this]
    show "edge_body binop UseBcast UseIdx ufeat vfeat src_of col edge_map
        reduce_size ubcast_off vbcast_off ufeat_len vfeat_len out_len ?tx0 ?sx e s' =
        Some (fold (\<lambda>p. ?put (e, p)) (strided ?tx0 ?sx out_len) s') \<and>
        length (out_buf (fold (\<lambda>p. ?put (e, p)) (strided ?tx0 ?sx out_len) s')) = length (out_buf s)"
      by (simp add: len)
  qed
  then show ?thesis by (simp add: thread_cells_def fold_product)
qed

lemma launch_Nil [simp]: "launch k [] s = Some s"
  by (simp add: launch_def)

lemma fold_bind_None: "fold (\<lambda>t r. Option.bind r (k t)) ts None = None"
  by (induction ts) simp_all

lemma launch_Cons: "launch k (t # ts) s = Option.bind (k t s) (launch k ts)"
  by (cases "k t s") (simp_all add: launch_def fold_bind_None)

lemma launch_run:
  assumes "\<And>t s. t \<in> set sched \<Longrightarrow> length (out_buf s) = n \<Longrightarrow>
             k t s = Some (fold put (cells t) s) \<and> length (out_buf (fold put (cells t) s)) = n"
    and "length (out_buf s) = n"
  shows "launch k sched s = Some (fold put (concat (map cells sched)) s)"
  using assms
proof (induction sched arbitrary: s)
  case Nil
  show ?case by simp
next
  case (Cons t ts)
  from Cons.prems(1)[of t s] Cons.prems(2)
  have step: "k t s = Some (fold put (cells t) s)"
    and len: "length (out_buf (fold put (cells t) s)) = n" by simp_all
  have "launch k ts (fold put (cells t) s) =
        Some (fold put (concat (map cells ts)) (fold put (cells t) s))"
    by (rule Cons.IH) (use Cons.prems(1) len in auto)
  then show ?case by (simp add: launch_Cons step)
qed

lemma residue_iff:
  fixes x0 p S :: int
  assumes "0 \<le> x0" "x0 < S"
  shows "(x0 \<le> p \<and> (p - x0) mod S = 0) \<longleftrightarrow> (0 \<le> p \<and> p mod S = x0)"
proof
  assume a: "x0 \<le> p \<and> (p - x0) mod S = 0"
  then have "S dvd p - x0" by (simp add: dvd_eq_mod_eq_0)
  then have "p mod S = x0 mod S" by (simp add: mod_eq_dvd_iff)
  with assms a show "0 \<le> p \<and> p mod S = x0" by simp
next
  assume a: "0 \<le> p \<and> p mod S = x0"
  from assms have S: "0 < S" by simp
  have "p = S * (p div S) + p mod S" by simp
  moreover have "0 \<le> p div S" using a S by (simp add: pos_imp_zdiv_nonneg_iff)
  then have "0 \<le> S * (p div S)" using S by simp
  ultimately have "p mod S \<le> p" by linarith
  moreover have "(p - p mod S) mod S = 0" by (simp add: mod_diff_right_eq)
  ultimately show "x0 \<le> p \<and> (p - x0) mod S = 0" using a by simp
qed

lemma thread_index_less:
  fixes b i bd gd :: nat
  assumes "i < bd" "b < gd"
  shows "b * bd + i < bd * gd"
proof -
  have "b * bd + i < b * bd + bd" using assms by simp
  also have "\<dots> = (Suc b) * bd" by simp
  also have "\<dots> \<le> gd * bd" using assms by (intro mult_le_mono1) simp
  finally show ?thesis by (simp add: mult.commute)
qed

lemma strided_thread_mem:
  fixes b i bd gd :: nat
  assumes "i < bd" "b < gd"
  shows "p \<in> set (strided (int (b * bd + i)) (int (bd * gd)) n) \<longleftrightarrow>
         0 \<le> p \<and> p < n \<and> nat p mod (bd * gd) = b * bd + i"
proof -
  from thread_index_less[OF assms] have lt: "b * bd + i < bd * gd" .
  then have "0 < bd * gd" by linarith
  then have pos: "0 < int (bd * gd)" by (simp only: of_nat_0_less_iff)
  have x0: "0 \<le> int (b * bd + i)" "int (b * bd + i) < int (bd * gd)"
    using lt by (simp_all only: of_nat_0_le_iff of_nat_less_iff)
  have "p \<in> set (strided (int (b * bd + i)) (int (bd * gd)) n) \<longleftrightarrow>
        (int (b * bd + i) \<le> p \<and> (p - int (b * bd + i)) mod int (bd * gd) = 0) \<and> p < n"
    unfolding strided_set[OF pos] by blast
  also have "\<dots> \<longleftrightarrow> (0 \<le> p \<and> p mod int (bd * gd) = int (b * bd + i)) \<and> p < n"
    by (simp only: residue_iff[OF x0])
  also have "\<dots> \<longleftrightarrow> 0 \<le> p \<and> p < n \<and> nat p mod (bd * gd) = b * bd + i"
  proof (cases "0 \<le> p")
    case True
    then obtain k where k: "p = int k" by (metis nonneg_int_cases)
    show ?thesis unfolding k
      by (auto simp add: zmod_int[symmetric] simp del: of_nat_mult of_nat_add)
  next
    case False
    then show ?thesis by simp
  qed
  finally show ?thesis .
qed

lemma grid_threads_mem:
  "t \<in> set (grid_threads nbx nby ntx nty) \<longleftrightarrow>
     blockIdx_x t < nbx \<and> blockIdx_y t < nby \<and> threadIdx_x t < ntx \<and> threadIdx_y t < nty \<and>
     blockDim_x t = ntx \<and> blockDim_y t = nty \<and> gridDim_x t = nbx \<and> gridDim_y t = nby"
proof
  assume "t \<in> set (grid_threads nbx nby ntx nty)"
  then show "blockIdx_x t < nbx \<and> blockIdx_y t < nby \<and> threadIdx_x t < ntx \<and> threadIdx_y t < nty \<and>
     blockDim_x t = ntx \<and> blockDim_y t = nty \<and> gridDim_x t = nbx \<and> gridDim_y t = nby"
    by (auto simp: grid_threads_def)
next
  assume a: "blockIdx_x t < nbx \<and> blockIdx_y t < nby \<and> threadIdx_x t < ntx \<and> threadIdx_y t < nty \<and>
     blockDim_x t = ntx \<and> blockDim_y t = nty \<and> gridDim_x t = nbx \<and> gridDim_y t = nby"
  let ?q = "(blockIdx_y t, blockIdx_x t, threadIdx_y t, threadIdx_x t)"
  have "?q \<in> set (List.product [0..<nby] (List.product [0..<nbx] (List.product [0..<nty] [0..<ntx])))"
    using a by simp
  moreover have "t = (\<lambda>(by, bx, ty, tx).
            \<lparr>blockIdx_x = bx, blockIdx_y = by, threadIdx_x = tx, threadIdx_y = ty,
             blockDim_x = ntx, blockDim_y = nty, gridDim_x = nbx, gridDim_y = nby\<rparr>) ?q"
    using a by (cases t) simp
  ultimately show "t \<in> set (grid_threads nbx nby ntx nty)"
    unfolding grid_threads_def set_map by (rule image_eqI[rotated])
qed

lemma grid_threads_distinct: "distinct (grid_threads nbx nby ntx nty)"
  unfolding grid_threads_def
  by (simp add: distinct_map distinct_product inj_on_def)

lemma thread_cells_mem:
  assumes "t \<in> set (grid_threads nbx nby ntx nty)"
  shows "(e, p) \<in> set (thread_cells E out_len t) \<longleftrightarrow>
     (0 \<le> e \<and> e < E \<and> nat e mod (nty * nby) = blockIdx_y t * nty + threadIdx_y t) \<and>
     (0 \<le> p \<and> p < out_len \<and> nat p mod (ntx * nbx) = blockIdx_x t * ntx + threadIdx_x t)"
proof -
  from assms have t: "blockIdx_x t < nbx" "blockIdx_y t < nby" "threadIdx_x t < ntx"
    "threadIdx_y t < nty" "blockDim_x t = ntx" "blockDim_y t = nty" "gridDim_x t = nbx"
    "gridDim_y t = nby"
    by (simp_all add: grid_threads_mem)
  show ?thesis
    unfolding thread_cells_def set_product mem_Times_iff fst_conv snd_conv t(5-8)
    by (simp only: strided_thread_mem[OF t(4) t(2)] strided_thread_mem[OF t(3) t(1)])
qed

lemma index_split_unique:
  fixes b i b' i' bd :: nat
  assumes "i < bd" "i' < bd" "b * bd + i = b' * bd + i'"
  shows "b = b' \<and> i = i'"
proof -
  have "(b * bd + i) div bd = b" "(b * bd + i) mod bd = i" using assms(1) by simp_all
  moreover have "(b' * bd + i') div bd = b'" "(b' * bd + i') mod bd = i'" using assms(2) by simp_all
  ultimately show ?thesis using assms(3) by metis
qed

lemma thread_cells_disjoint:
  assumes t: "t \<in> set (grid_threads nbx nby ntx nty)"
    and t': "t' \<in> set (grid_threads nbx nby ntx nty)" and ne: "t \<noteq> t'"
  shows "set (thread_cells E out_len t) \<inter> set (thread_cells E out_len t') = {}"
proof (rule ccontr)
  assume "set (thread_cells E out_len t) \<inter> set (thread_cells E out_len t') \<noteq> {}"
  then obtain e p where c: "(e, p) \<in> set (thread_cells E out_len t)"
    and c': "(e, p) \<in> set (thread_cells E out_len t')" by auto
  from c c' have y: "blockIdx_y t * nty + threadIdx_y t = blockIdx_y t' * nty + threadIdx_y t'"
    and x: "blockIdx_x t * ntx + threadIdx_x t = blockIdx_x t' * ntx + threadIdx_x t'"
    unfolding thread_cells_mem[OF t] thread_cells_mem[OF t'] by simp_all
  from t t' have r: "threadIdx_x t < ntx" "threadIdx_x t' < ntx" "threadIdx_y t < nty"
    "threadIdx_y t' < nty"
    and d: "blockDim_x t = blockDim_x t'" "blockDim_y t = blockDim_y t'"
       "gridDim_x t = gridDim_x t'" "gridDim_y t = gridDim_y t'"
    by (simp_all add: grid_threads_mem)
  from index_split_unique[OF r(1,2) x] index_split_unique[OF r(3,4) y] d
  have "t = t'" by (intro thread.equality) simp_all
  with ne show False by contradiction
qed

lemma thread_cells_cover:
  assumes pos: "0 < nbx" "0 < nby" "0 < ntx" "0 < nty"
    and e: "0 \<le> e" "e < E" and p: "0 \<le> p" "p < out_len"
  shows "\<exists>t \<in> set (grid_threads nbx nby ntx nty). (e, p) \<in> set (thread_cells E out_len t)"
proof -
  let ?x = "nat p mod (ntx * nbx)" and ?y = "nat e mod (nty * nby)"
  let ?t = "\<lparr>blockIdx_x = ?x div ntx, blockIdx_y = ?y div nty,
             threadIdx_x = ?x mod ntx, threadIdx_y = ?y mod nty,
             blockDim_x = ntx, blockDim_y = nty, gridDim_x = nbx, gridDim_y = nby\<rparr>"
  have "?x < ntx * nbx" "?y < nty * nby" using pos by simp_all
  then have "?x div ntx < nbx" "?y div nty < nby"
    using pos by (simp_all add: less_mult_imp_div_less mult.commute)
  then have mem: "?t \<in> set (grid_threads nbx nby ntx nty)"
    using pos by (simp add: grid_threads_mem)
  have "(e, p) \<in> set (thread_cells E out_len ?t)"
    unfolding thread_cells_mem[OF mem] using e p by simp
  with mem show ?thesis by blast
qed

lemma distinct_concat_map:
  assumes "distinct ts" and "\<And>t. t \<in> set ts \<Longrightarrow> distinct (f t)"
    and "\<And>t t'. t \<in> set ts \<Longrightarrow> t' \<in> set ts \<Longrightarrow> t \<noteq> t' \<Longrightarrow> set (f t) \<inter> set (f t') = {}"
  shows "distinct (concat (map f ts))"
  using assms
proof (induction ts)
  case Nil
  show ?case by simp
next
  case (Cons t ts)
  have "distinct (concat (map f ts))"
    by (rule Cons.IH) (use Cons.prems in auto)
  moreover have "distinct (f t)" using Cons.prems(2) by simp
  moreover have "set (f t) \<inter> set (f t') = {}" if "t' \<in> set ts" for t'
    using Cons.prems(1) Cons.prems(3)[of t t'] that by auto
  ultimately show ?case by auto
qed

lemma thread_cells_distinct: "distinct (thread_cells E out_len t)"
  by (simp add: thread_cells_def distinct_product strided_distinct)

lemma launch_cells_distinct:
  assumes "schedule_of nbx nby ntx nty sched"
  shows "distinct (launch_cells E out_len sched)"
proof -
  from assms have m: "mset sched = mset (grid_threads nbx nby ntx nty)"
    by (simp add: schedule_of_def)
  then have s: "set sched = set (grid_threads nbx nby ntx nty)" by (rule mset_eq_setD)
  from m have d: "distinct sched"
    using grid_threads_distinct mset_eq_imp_distinct_iff by blast
  show ?thesis
    unfolding launch_cells_def
    by (rule distinct_concat_map[OF d thread_cells_distinct])
       (simp add: s thread_cells_disjoint)
qed

lemma launch_cells_set:
  assumes "schedule_of nbx nby ntx nty sched"
    and pos: "0 < nbx" "0 < nby" "0 < ntx" "0 < nty"
  shows "set (launch_cells E out_len sched) = {0..<E} \<times> {0..<out_len}"
proof -
  from assms have "mset sched = mset (grid_threads nbx nby ntx nty)"
    by (simp add: schedule_of_def)
  then have s: "set sched = set (grid_threads nbx nby ntx nty)" by (rule mset_eq_setD)
  show ?thesis
  proof (intro set_eqI iffI)
    fix c assume "c \<in> set (launch_cells E out_len sched)"
    then obtain t where t: "t \<in> set (grid_threads nbx nby ntx nty)"
      and c: "(fst c, snd c) \<in> set (thread_cells E out_len t)"
      by (auto simp: launch_cells_def s)
    from c show "c \<in> {0..<E} \<times> {0..<out_len}"
      unfolding thread_cells_mem[OF t] by (simp add: mem_Times_iff)
  next
    fix c assume c: "c \<in> {0..<E} \<times> {0..<out_len}"
    then have "0 \<le> fst c" "fst c < E" "0 \<le> snd c" "snd c < out_len"
      by (simp_all add: mem_Times_iff)
    from thread_cells_cover[OF pos this]
    show "c \<in> set (launch_cells E out_len sched)"
      by (auto simp: launch_cells_def s)
  qed
qed

lemma fold_put_cell_writes:
  "writes (fold (put_cell eidf valf out_len) cs s) =
   writes s @ map (\<lambda>c. (fst c, snd c, cell_index eidf out_len c, valf (fst c) (snd c))) cs"
  by (induction cs arbitrary: s) (simp_all add: put_cell_def Let_def cell_index_def)

lemma fold_put_cell_other:
  assumes "\<And>c. c \<in> set cs \<Longrightarrow> nat (cell_index eidf out_len c) \<noteq> i"
  shows "out_buf (fold (put_cell eidf valf out_len) cs s) ! i = out_buf s ! i"
  using assms
proof (induction cs arbitrary: s)
  case Nil
  show ?case by simp
next
  case (Cons c cs)
  have "out_buf (fold (put_cell eidf valf out_len) cs (put_cell eidf valf out_len c s)) ! i =
        out_buf (put_cell eidf valf out_len c s) ! i"
    by (rule Cons.IH) (simp add: Cons.prems)
  also have "\<dots> = out_buf s ! i"
    using Cons.prems[of c] by (simp add: put_cell_def Let_def cell_index_def)
  finally show ?case by simp
qed

lemma fold_put_cell_nth:
  assumes "distinct (map (cell_index eidf out_len) cs)"
    and "\<And>c. c \<in> set cs \<Longrightarrow> 0 \<le> cell_index eidf out_len c"
    and "c \<in> set cs" and "cell_index eidf out_len c < int (length (out_buf s))"
  shows "out_buf (fold (put_cell eidf valf out_len) cs s) ! nat (cell_index eidf out_len c) =
         valf (fst c) (snd c)"
  using assms
proof (induction cs arbitrary: s)
  case Nil
  then show ?case by simp
next
  case (Cons d cs)
  show ?case
  proof (cases "c = d")
    case True
    have ne: "nat (cell_index eidf out_len c') \<noteq> nat (cell_index eidf out_len c)"
      if "c' \<in> set cs" for c'
    proof -
      from Cons.prems(1) True have "cell_index eidf out_len c \<notin> cell_index eidf out_len ` set cs"
        by simp
      with that have "cell_index eidf out_len c' \<noteq> cell_index eidf out_len c"
        by (metis imageI)
      moreover have "0 \<le> cell_index eidf out_len c'" "0 \<le> cell_index eidf out_len c"
        using Cons.prems(2) that True by simp_all
      ultimately show ?thesis by simp
    qed
    have "0 \<le> cell_index eidf out_len c" using Cons.prems(2)[of c] True by simp
    with Cons.prems(4) have lt: "nat (cell_index eidf out_len c) < length (out_buf s)" by simp
    have "out_buf (fold (put_cell eidf valf out_len) cs (put_cell eidf valf out_len c s))
            ! nat (cell_index eidf out_len c) =
          out_buf (put_cell eidf valf out_len c s) ! nat (cell_index eidf out_len c)"
      by (rule fold_put_cell_other) (rule ne)
    also have "\<dots> = valf (fst c) (snd c)"
      using lt by (simp add: put_cell_def Let_def cell_index_def)
    finally show ?thesis using True by simp
  next
    case False
    with Cons.prems(3) have mem: "c \<in> set cs" by simp
    have "out_buf (fold (put_cell eidf valf out_len) cs (put_cell eidf valf out_len d s))
            ! nat (cell_index eidf out_len c) = valf (fst c) (snd c)"
      by (rule Cons.IH) (use Cons.prems mem in simp_all)
    then show ?thesis by simp
  qed
qed

lemma cell_index_inj:
  assumes inj: "inj_on eidf {0..<E}"
  shows "inj_on (cell_index eidf out_len) ({0..<E} \<times> {0..<out_len})"
proof (rule inj_onI)
  fix c d
  assume c: "c \<in> {0..<E} \<times> {0..<out_len}" and d: "d \<in> {0..<E} \<times> {0..<out_len}"
    and eq: "cell_index eidf out_len c = cell_index eidf out_len d"
  from c d have r: "0 \<le> snd c" "snd c < out_len" "0 \<le> snd d" "snd d < out_len"
    and e: "fst c \<in> {0..<E}" "fst d \<in> {0..<E}"
    by (auto simp: mem_Times_iff)
  have "(eidf (fst c) * out_len + snd c) div out_len = eidf (fst c)"
       "(eidf (fst c) * out_len + snd c) mod out_len = snd c"
       "(eidf (fst d) * out_len + snd d) div out_len = eidf (fst d)"
       "(eidf (fst d) * out_len + snd d) mod out_len = snd d"
    using r by simp_all
  with eq have "eidf (fst c) = eidf (fst d)" "snd c = snd d"
    unfolding cell_index_def by metis+
  with inj e show "c = d" by (auto simp: inj_on_def prod_eq_iff)
qed

lemma launch_kernel_run:
  fixes s :: "'d gmem"
  assumes ok: "kernel_ok binop UseBcast UseIdx ufeat vfeat src_of col edge_map
      E reduce_size ubcast_off vbcast_off ufeat_len vfeat_len out_len (int (length (out_buf s)))"
    and pos: "0 < nbx" "0 < nby" "0 < ntx" "0 < nty"
    and sched: "schedule_of nbx nby ntx nty sched"
    and k: "\<And>t s. k t s = while_strided E (int (blockDim_y t * gridDim_y t))
     (edge_body binop UseBcast UseIdx ufeat vfeat src_of col edge_map
        reduce_size ubcast_off vbcast_off ufeat_len vfeat_len out_len
        (int (blockIdx_x t * blockDim_x t + threadIdx_x t)) (int (blockDim_x t * gridDim_x t)))
     (int (blockIdx_y t * blockDim_y t + threadIdx_y t)) s"
  shows "launch k sched s =
    Some (fold (put_cell (out_row UseIdx edge_map)
                  (out_val binop UseBcast ufeat vfeat src_of col reduce_size ubcast_off vbcast_off
                     ufeat_len vfeat_len) out_len)
            (launch_cells E out_len sched) s)"
  unfolding launch_cells_def
proof (rule launch_run[where n = "length (out_buf s)"])
  show "length (out_buf s) = length (out_buf s)" ..
  fix t and s' :: "'d gmem"
  assume t: "t \<in> set sched" and len: "length (out_buf s') = length (out_buf s)"
  from sched have "set sched = set (grid_threads nbx nby ntx nty)"
    unfolding schedule_of_def by (rule mset_eq_setD)
  with t have d: "blockDim_x t = ntx" "blockDim_y t = nty" "gridDim_x t = nbx" "gridDim_y t = nby"
    by (simp_all add: grid_threads_mem)
  have sx: "0 < blockDim_x t * gridDim_x t" and sy: "0 < blockDim_y t * gridDim_y t"
    using pos d by simp_all
  from ok len have ok': "kernel_ok binop UseBcast UseIdx ufeat vfeat src_of col edge_map
      E reduce_size ubcast_off vbcast_off ufeat_len vfeat_len out_len (int (length (out_buf s')))"
    by simp
  show "k t s' = Some (fold (put_cell (out_row UseIdx edge_map)
                  (out_val binop UseBcast ufeat vfeat src_of col reduce_size ubcast_off vbcast_off
                     ufeat_len vfeat_len) out_len) (thread_cells E out_len t) s') \<and>
        length (out_buf (fold (put_cell (out_row UseIdx edge_map)
                  (out_val binop UseBcast ufeat vfeat src_of col reduce_size ubcast_off vbcast_off
                     ufeat_len vfeat_len) out_len) (thread_cells E out_len t) s')) =
        length (out_buf s)"
    unfolding k thread_run[OF ok' sx sy] by (simp add: len)
qed

section \<open>The binary search of the compressed encoding\<close>

lemma ldg_array_ptr:
  "ldg (ptr_add (array_ptr xs) i) = (if 0 \<le> i \<and> i < int (length xs) then Some (xs ! nat i) else None)"
  by (simp add: array_ptr_def)




section \<open>The state after a launch\<close>

lemma kernel_ok_edge:
  assumes "kernel_ok binop UseBcast UseIdx ufeat vfeat src_of col edge_map
      E reduce_size ubcast_off vbcast_off ufeat_len vfeat_len out_len L"
    and "0 \<le> e" "e < E"
  shows "\<exists>src dst eid. src_of e = Some src \<and> ldg (ptr_add col e) = Some dst \<and>
           edge_id UseIdx edge_map e = Some eid \<and> 0 \<le> eid \<and> (eid + 1) * out_len \<le> L \<and>
           (\<forall>p. 0 \<le> p \<and> p < out_len \<longrightarrow>
              (\<exists>v. cell_val binop UseBcast ufeat vfeat reduce_size ubcast_off vbcast_off
                  ufeat_len vfeat_len src dst p = Some v))"
proof -
  from assms(2,3) have "e \<in> set [0..E - 1]" by simp
  with assms(1) obtain src dst eid where
    a: "src_of e = Some src" "ldg (ptr_add col e) = Some dst"
       "edge_id UseIdx edge_map e = Some eid" "0 \<le> eid" "(eid + 1) * out_len \<le> L"
    and calls: "\<forall>p \<in> set [0..out_len - 1].
                cell_val binop UseBcast ufeat vfeat reduce_size ubcast_off vbcast_off
                  ufeat_len vfeat_len src dst p \<noteq> None"
    unfolding kernel_ok_def by (fastforce split: option.splits)
  have "\<exists>v. cell_val binop UseBcast ufeat vfeat reduce_size ubcast_off vbcast_off
                  ufeat_len vfeat_len src dst p = Some v" if "0 \<le> p" "p < out_len" for p
  proof -
    from that have "p \<in> set [0..out_len - 1]" by simp
    with calls show ?thesis by blast
  qed
  with a show ?thesis by blast
qed

lemma out_row_inj:
  assumes ok: "kernel_ok binop UseBcast UseIdx ufeat vfeat src_of col edge_map
      E reduce_size ubcast_off vbcast_off ufeat_len vfeat_len out_len L"
    and d: "edge_ids_distinct UseIdx edge_map E"
  shows "inj_on (out_row UseIdx edge_map) {0..<E}"
proof (rule inj_onI)
  fix a b assume a: "a \<in> {0..<E}" and b: "b \<in> {0..<E}"
    and eq: "out_row UseIdx edge_map a = out_row UseIdx edge_map b"
  from kernel_ok_edge[OF ok, of a] a obtain x where x: "edge_id UseIdx edge_map a = Some x"
    by auto
  from kernel_ok_edge[OF ok, of b] b obtain y where y: "edge_id UseIdx edge_map b = Some y"
    by auto
  from eq x y have "edge_id UseIdx edge_map a = edge_id UseIdx edge_map b"
    by (simp add: out_row_def)
  moreover from d have "inj_on (edge_id UseIdx edge_map) (set [0..E - 1])"
    by (simp add: edge_ids_distinct_def distinct_map)
  moreover have "a \<in> set [0..E - 1]" "b \<in> set [0..E - 1]" using a b by simp_all
  ultimately show "a = b" by (metis inj_onD)
qed

lemma cell_index_bounds:
  assumes ok: "kernel_ok binop UseBcast UseIdx ufeat vfeat src_of col edge_map
      E reduce_size ubcast_off vbcast_off ufeat_len vfeat_len out_len L"
    and c: "c \<in> {0..<E} \<times> {0..<out_len}"
  shows "0 \<le> cell_index (out_row UseIdx edge_map) out_len c \<and>
         cell_index (out_row UseIdx edge_map) out_len c < L"
proof -
  from c have r: "0 \<le> fst c" "fst c < E" "0 \<le> snd c" "snd c < out_len"
    by (simp_all add: mem_Times_iff)
  from kernel_ok_edge[OF ok r(1,2)] obtain eid where
    "edge_id UseIdx edge_map (fst c) = Some eid" "0 \<le> eid" "(eid + 1) * out_len \<le> L"
    by blast
  then have "out_row UseIdx edge_map (fst c) = eid" "0 \<le> eid" "(eid + 1) * out_len \<le> L"
    by (simp_all add: out_row_def)
  with row_in_bounds[OF this(2,3) r(3,4)] show ?thesis
    by (simp add: cell_index_def)
qed

lemma launch_final:
  fixes s :: "'d gmem"
  assumes ok: "kernel_ok binop UseBcast UseIdx ufeat vfeat src_of col edge_map
      E reduce_size ubcast_off vbcast_off ufeat_len vfeat_len out_len (int (length (out_buf s)))"
    and pos: "0 < nbx" "0 < nby" "0 < ntx" "0 < nty"
    and sched: "schedule_of nbx nby ntx nty sched"
    and k: "\<And>t s. k t s = while_strided E (int (blockDim_y t * gridDim_y t))
     (edge_body binop UseBcast UseIdx ufeat vfeat src_of col edge_map
        reduce_size ubcast_off vbcast_off ufeat_len vfeat_len out_len
        (int (blockIdx_x t * blockDim_x t + threadIdx_x t)) (int (blockDim_x t * gridDim_x t)))
     (int (blockIdx_y t * blockDim_y t + threadIdx_y t)) s"
  defines "eidf \<equiv> out_row UseIdx edge_map"
    and "valf \<equiv> out_val binop UseBcast ufeat vfeat src_of col reduce_size ubcast_off vbcast_off
                     ufeat_len vfeat_len"
  shows "\<exists>s'. launch k sched s = Some s' \<and>
      length (out_buf s') = length (out_buf s) \<and>
      writes s' = writes s @
        map (\<lambda>c. (fst c, snd c, cell_index eidf out_len c, valf (fst c) (snd c)))
          (launch_cells E out_len sched) \<and>
      (\<forall>i. i \<notin> (\<lambda>c. nat (cell_index eidf out_len c)) ` ({0..<E} \<times> {0..<out_len}) \<longrightarrow>
           out_buf s' ! i = out_buf s ! i) \<and>
      (edge_ids_distinct UseIdx edge_map E \<longrightarrow>
         (\<forall>c \<in> {0..<E} \<times> {0..<out_len}.
            out_buf s' ! nat (cell_index eidf out_len c) = valf (fst c) (snd c)))"
proof -
  let ?cs = "launch_cells E out_len sched"
  let ?s' = "fold (put_cell eidf valf out_len) ?cs s"
  have run: "launch k sched s = Some ?s'"
    unfolding eidf_def valf_def by (rule launch_kernel_run[OF ok pos sched k])
  have cs: "set ?cs = {0..<E} \<times> {0..<out_len}"
    by (rule launch_cells_set[OF sched pos])
  have dcs: "distinct ?cs" by (rule launch_cells_distinct[OF sched])
  have other: "out_buf ?s' ! i = out_buf s ! i"
    if "i \<notin> (\<lambda>c. nat (cell_index eidf out_len c)) ` ({0..<E} \<times> {0..<out_len})" for i
  proof (rule fold_put_cell_other)
    fix c assume "c \<in> set ?cs"
    with cs that show "nat (cell_index eidf out_len c) \<noteq> i" by blast
  qed
  have cell: "out_buf ?s' ! nat (cell_index eidf out_len c) = valf (fst c) (snd c)"
    if d: "edge_ids_distinct UseIdx edge_map E" and c: "c \<in> {0..<E} \<times> {0..<out_len}" for c
  proof (rule fold_put_cell_nth)
    have "inj_on (cell_index eidf out_len) (set ?cs)"
      unfolding cs eidf_def by (rule cell_index_inj) (rule out_row_inj[OF ok d])
    with dcs show "distinct (map (cell_index eidf out_len) ?cs)"
      by (simp add: distinct_map)
    show "c \<in> set ?cs" using c cs by simp
    show "cell_index eidf out_len c < int (length (out_buf s))"
      using cell_index_bounds[OF ok c] by (simp add: eidf_def)
    fix c' assume "c' \<in> set ?cs"
    then have "c' \<in> {0..<E} \<times> {0..<out_len}" using cs by simp
    from cell_index_bounds[OF ok this] show "0 \<le> cell_index eidf out_len c'"
      by (simp add: eidf_def)
  qed
  show ?thesis
    using run other cell by (simp add: fold_put_cell_writes)
qed

section \<open>The claims of the specification\<close>







lemma example_schedule: "schedule_of 1 1 2 2 (grid_threads 1 1 2 2)"
  by (simp add: schedule_of_def)

lemma example_coo_ok:
  "coo_ok Mul False False (array_ptr [1, 2, 3, 4]) (array_ptr [10, 20, 30, 40])
     (array_ptr [0, 0, 1]) (array_ptr [0, 1, 1]) nullptr 3 1 nullptr nullptr 2 2 2 6"
  by code_simp












lemma example_edge_ids_distinct: "edge_ids_distinct False nullptr 3"
  by code_simp







lemma launch_cong:
  assumes "\<And>t s. t \<in> set sched \<Longrightarrow> k t s = k' t s"
  shows "launch k sched s = launch k' sched s"
  using assms
proof (induction sched arbitrary: s)
  case Nil
  show ?case by simp
next
  case (Cons t ts)
  have "k t s = k' t s" using Cons.prems by simp
  moreover have "launch k ts = launch k' ts"
  proof (rule ext)
    fix s' show "launch k ts s' = launch k' ts s'"
      by (rule Cons.IH) (simp add: Cons.prems)
  qed
  ultimately show ?case by (simp add: launch_Cons)
qed

lemma ldg_identity_table:
  assumes "0 \<le> p" "p < n"
  shows "ldg (ptr_add (array_ptr [0..n - 1]) p) = Some p"
proof -
  have "[0..n - 1] ! nat p = 0 + int (nat p)"
    by (rule nth_upto) (use assms in simp)
  with assms show ?thesis by (simp add: ldg_array_ptr)
qed

lemma cell_val_identity_bcast:
  assumes "0 \<le> p" "p < out_len"
  shows "cell_val binop True ufeat vfeat reduce_size
           (array_ptr [0..out_len - 1]) (array_ptr [0..out_len - 1]) ufeat_len vfeat_len src dst p =
         cell_val binop False ufeat vfeat reduce_size ubcast_off vbcast_off
           ufeat_len vfeat_len src dst p"
  by (simp add: cell_val_def ldg_identity_table[OF assms])

lemma edge_body_identity_bcast:
  assumes "0 < stride_x" "0 \<le> tx0"
  shows "edge_body binop True UseIdx ufeat vfeat src_of col edge_map reduce_size
           (array_ptr [0..out_len - 1]) (array_ptr [0..out_len - 1])
           ufeat_len vfeat_len out_len tx0 stride_x ty s =
         edge_body binop False UseIdx ufeat vfeat src_of col edge_map reduce_size
           ubcast_off vbcast_off ufeat_len vfeat_len out_len tx0 stride_x ty s"
proof -
  have inner: "while_strided out_len stride_x (\<lambda>tx s. do {
           val \<leftarrow> cell_val binop True ufeat vfeat reduce_size
                    (array_ptr [0..out_len - 1]) (array_ptr [0..out_len - 1])
                    ufeat_len vfeat_len src dst tx;
           store ty tx (eid * out_len) val s
         }) tx0 s1 =
        while_strided out_len stride_x (\<lambda>tx s. do {
           val \<leftarrow> cell_val binop False ufeat vfeat reduce_size ubcast_off vbcast_off
                    ufeat_len vfeat_len src dst tx;
           store ty tx (eid * out_len) val s
         }) tx0 s1" for src dst eid s1
  proof (rule while_strided_cong[OF assms(1)])
    fix i s' assume "tx0 \<le> i" "i < out_len"
    with assms(2) have r: "0 \<le> i" "i < out_len" by simp_all
    show "do {
           val \<leftarrow> cell_val binop True ufeat vfeat reduce_size
                    (array_ptr [0..out_len - 1]) (array_ptr [0..out_len - 1])
                    ufeat_len vfeat_len src dst i;
           store ty i (eid * out_len) val s'
         } = do {
           val \<leftarrow> cell_val binop False ufeat vfeat reduce_size ubcast_off vbcast_off
                    ufeat_len vfeat_len src dst i;
           store ty i (eid * out_len) val s'
         }"
      by (simp only: cell_val_identity_bcast[OF r, where ubcast_off = ubcast_off
            and vbcast_off = vbcast_off])
  qed
  show ?thesis unfolding edge_body_def by (simp only: inner)
qed

lemma thread_identity_bcast:
  assumes "0 < blockDim_x t * gridDim_x t" "0 < blockDim_y t * gridDim_y t"
  shows "while_strided E (int (blockDim_y t * gridDim_y t))
     (edge_body binop True UseIdx ufeat vfeat src_of col edge_map reduce_size
        (array_ptr [0..out_len - 1]) (array_ptr [0..out_len - 1]) ufeat_len vfeat_len out_len
        (int (blockIdx_x t * blockDim_x t + threadIdx_x t)) (int (blockDim_x t * gridDim_x t)))
     (int (blockIdx_y t * blockDim_y t + threadIdx_y t)) s =
   while_strided E (int (blockDim_y t * gridDim_y t))
     (edge_body binop False UseIdx ufeat vfeat src_of col edge_map reduce_size
        ubcast_off vbcast_off ufeat_len vfeat_len out_len
        (int (blockIdx_x t * blockDim_x t + threadIdx_x t)) (int (blockDim_x t * gridDim_x t)))
     (int (blockIdx_y t * blockDim_y t + threadIdx_y t)) s"
proof (rule while_strided_cong)
  show "0 < int (blockDim_y t * gridDim_y t)"
    using assms(2) by (simp only: of_nat_0_less_iff)
  fix i s'
  have "0 < int (blockDim_x t * gridDim_x t)"
    using assms(1) by (simp only: of_nat_0_less_iff)
  moreover have "0 \<le> int (blockIdx_x t * blockDim_x t + threadIdx_x t)"
    by (rule of_nat_0_le_iff)
  ultimately show "edge_body binop True UseIdx ufeat vfeat src_of col edge_map reduce_size
        (array_ptr [0..out_len - 1]) (array_ptr [0..out_len - 1]) ufeat_len vfeat_len out_len
        (int (blockIdx_x t * blockDim_x t + threadIdx_x t)) (int (blockDim_x t * gridDim_x t)) i s' =
      edge_body binop False UseIdx ufeat vfeat src_of col edge_map reduce_size
        ubcast_off vbcast_off ufeat_len vfeat_len out_len
        (int (blockIdx_x t * blockDim_x t + threadIdx_x t)) (int (blockDim_x t * gridDim_x t)) i s'"
    by (rule edge_body_identity_bcast)
qed

lemma schedule_strides_pos:
  assumes "0 < nbx" "0 < nby" "0 < ntx" "0 < nty"
    and "schedule_of nbx nby ntx nty sched" and "t \<in> set sched"
  shows "0 < blockDim_x t * gridDim_x t \<and> 0 < blockDim_y t * gridDim_y t"
proof -
  from assms(5) have "set sched = set (grid_threads nbx nby ntx nty)"
    unfolding schedule_of_def by (rule mset_eq_setD)
  with assms(6) have "blockDim_x t = ntx" "blockDim_y t = nty" "gridDim_x t = nbx" "gridDim_y t = nby"
    by (simp_all add: grid_threads_mem)
  with assms(1-4) show ?thesis by simp
qed

text \<open>
  C5. The identity fast path (\<open>UseBcast\<close> false, the position itself as both offsets) and
  the offset-table path (\<open>UseBcast\<close> true) with the identity tables
  \<open>lhs_offset[p] = rhs_offset[p] = p\<close> produce the same output, for both kernels; in
  particular when \<open>lhs_len = rhs_len = out_len\<close>.
\<close>

theorem identity_bcast_paths_agree:
  fixes s :: "'d gmem"
  assumes "0 < nbx" "0 < nby" "0 < ntx" "0 < nty"
    and "schedule_of nbx nby ntx nty sched"
  shows
   "launch (SDDMMCooKernel binop True UseIdx ufeat vfeat row col edge_map N M E reduce_size
              (array_ptr [0..out_len - 1]) (array_ptr [0..out_len - 1])
              ufeat_len vfeat_len out_len) sched s =
    launch (SDDMMCooKernel binop False UseIdx ufeat vfeat row col edge_map N M E reduce_size
              ubcast_off vbcast_off ufeat_len vfeat_len out_len) sched s \<and>
    launch (SDDMMCsrKernel binop True UseIdx ufeat vfeat indptr indices edge_map N M E reduce_size
              (array_ptr [0..out_len - 1]) (array_ptr [0..out_len - 1])
              ufeat_len vfeat_len out_len) sched s =
    launch (SDDMMCsrKernel binop False UseIdx ufeat vfeat indptr indices edge_map N M E reduce_size
              ubcast_off vbcast_off ufeat_len vfeat_len out_len) sched s"
proof (intro conjI launch_cong)
  fix t and s' :: "'d gmem"
  assume "t \<in> set sched"
  from schedule_strides_pos[OF assms this]
  have st: "0 < blockDim_x t * gridDim_x t" "0 < blockDim_y t * gridDim_y t" by simp_all
  show "SDDMMCooKernel binop True UseIdx ufeat vfeat row col edge_map N M E reduce_size
              (array_ptr [0..out_len - 1]) (array_ptr [0..out_len - 1])
              ufeat_len vfeat_len out_len t s' =
        SDDMMCooKernel binop False UseIdx ufeat vfeat row col edge_map N M E reduce_size
              ubcast_off vbcast_off ufeat_len vfeat_len out_len t s'"
    unfolding SDDMMCooKernel_edge_body by (rule thread_identity_bcast[OF st])
  show "SDDMMCsrKernel binop True UseIdx ufeat vfeat indptr indices edge_map N M E reduce_size
              (array_ptr [0..out_len - 1]) (array_ptr [0..out_len - 1])
              ufeat_len vfeat_len out_len t s' =
        SDDMMCsrKernel binop False UseIdx ufeat vfeat indptr indices edge_map N M E reduce_size
              ubcast_off vbcast_off ufeat_len vfeat_len out_len t s'"
    unfolding SDDMMCsrKernel_edge_body by (rule thread_identity_bcast[OF st])
qed

theorem identity_bcast_paths_agree_witness:
  "(0::nat) < 1 \<and> (0::nat) < 2 \<and> schedule_of 1 1 2 2 (grid_threads 1 1 2 2) \<and>
   launch (SDDMMCooKernel Mul True False (array_ptr [1, 2, 3, 4]) (array_ptr [10, 20, 30, 40])
             (array_ptr [0, 0, 1]) (array_ptr [0, 1, 1]) nullptr 2 2 3 1
             (array_ptr [0..2 - 1]) (array_ptr [0..2 - 1]) 2 2 2) (grid_threads 1 1 2 2)
          \<lparr>out_buf = [0, 0, 0, 0, 0, 0], writes = []\<rparr> =
   launch (SDDMMCooKernel Mul False False (array_ptr [1, 2, 3, 4]) (array_ptr [10, 20, 30, 40])
             (array_ptr [0, 0, 1]) (array_ptr [0, 1, 1]) nullptr 2 2 3 1
             nullptr nullptr 2 2 2) (grid_threads 1 1 2 2)
          \<lparr>out_buf = [0, 0, 0, 0, 0, 0], writes = []\<rparr> \<and>
   map_option out_buf
     (launch (SDDMMCooKernel Mul False False (array_ptr [1, 2, 3, 4]) (array_ptr [10, 20, 30, 40])
             (array_ptr [0, 0, 1]) (array_ptr [0, 1, 1]) nullptr 2 2 3 1
             nullptr nullptr 2 2 2) (grid_threads 1 1 2 2)
          \<lparr>out_buf = [0, 0, 0, 0, 0, 0], writes = []\<rparr>) = Some [10, 40, 30, 80, 90, 160]"
proof -
  have p1: "(0::nat) < 1" and p2: "(0::nat) < 2" by simp_all
  have v: "map_option out_buf
     (launch (SDDMMCooKernel Mul False False (array_ptr [1, 2, 3, 4]) (array_ptr [10, 20, 30, 40])
             (array_ptr [0, 0, 1]) (array_ptr [0, 1, 1]) nullptr 2 2 3 1
             nullptr nullptr 2 2 2) (grid_threads 1 1 2 2)
          \<lparr>out_buf = [0, 0, 0, 0, 0, 0], writes = []\<rparr>) = Some [10, 40, 30, 80, 90, 160]"
    by code_simp
  show ?thesis
    by (intro conjI p1 p2 example_schedule v
          identity_bcast_paths_agree[OF p1 p1 p2 p2 example_schedule, THEN conjunct1])
qed

lemma ptr_add_nullptr: "ptr_add nullptr k = Ptr None k"
  by (simp add: nullptr_def)

text \<open>
  C7. For an operator that does not use its left side, a launch of either kernel does not
  depend on the source-feature pointer: any two pointers (valid or not) give the same
  result, and the operator only ever receives left windows that are offsets from the null
  pointer, with no region to read. Symmetrically for an operator that does not use its
  right side and the destination-feature pointer.
\<close>

theorem unused_side_is_never_read:
  "(\<not> use_lhs binop \<longrightarrow>
      launch (SDDMMCooKernel binop UseBcast UseIdx ufeat vfeat row col edge_map N M E reduce_size
                ubcast_off vbcast_off ufeat_len vfeat_len out_len) sched s =
      launch (SDDMMCooKernel binop UseBcast UseIdx ufeat' vfeat row col edge_map N M E reduce_size
                ubcast_off vbcast_off ufeat_len vfeat_len out_len) sched s \<and>
      launch (SDDMMCsrKernel binop UseBcast UseIdx ufeat vfeat indptr indices edge_map N M E
                reduce_size ubcast_off vbcast_off ufeat_len vfeat_len out_len) sched s =
      launch (SDDMMCsrKernel binop UseBcast UseIdx ufeat' vfeat indptr indices edge_map N M E
                reduce_size ubcast_off vbcast_off ufeat_len vfeat_len out_len) sched s \<and>
      launch (SDDMMCooKernel binop UseBcast UseIdx ufeat vfeat row col edge_map N M E reduce_size
                ubcast_off vbcast_off ufeat_len vfeat_len out_len) sched s =
      launch (SDDMMCooKernel
                (binop\<lparr>Call := \<lambda>lhs. Call binop (Ptr None (offset lhs))\<rparr>)
                UseBcast UseIdx ufeat vfeat row col edge_map N M E reduce_size
                ubcast_off vbcast_off ufeat_len vfeat_len out_len) sched s \<and>
      launch (SDDMMCsrKernel binop UseBcast UseIdx ufeat vfeat indptr indices edge_map N M E
                reduce_size ubcast_off vbcast_off ufeat_len vfeat_len out_len) sched s =
      launch (SDDMMCsrKernel
                (binop\<lparr>Call := \<lambda>lhs. Call binop (Ptr None (offset lhs))\<rparr>)
                UseBcast UseIdx ufeat vfeat indptr indices edge_map N M E
                reduce_size ubcast_off vbcast_off ufeat_len vfeat_len out_len) sched s) \<and>
   (\<not> use_rhs binop \<longrightarrow>
      launch (SDDMMCooKernel binop UseBcast UseIdx ufeat vfeat row col edge_map N M E reduce_size
                ubcast_off vbcast_off ufeat_len vfeat_len out_len) sched s =
      launch (SDDMMCooKernel binop UseBcast UseIdx ufeat vfeat' row col edge_map N M E reduce_size
                ubcast_off vbcast_off ufeat_len vfeat_len out_len) sched s \<and>
      launch (SDDMMCsrKernel binop UseBcast UseIdx ufeat vfeat indptr indices edge_map N M E
                reduce_size ubcast_off vbcast_off ufeat_len vfeat_len out_len) sched s =
      launch (SDDMMCsrKernel binop UseBcast UseIdx ufeat vfeat' indptr indices edge_map N M E
                reduce_size ubcast_off vbcast_off ufeat_len vfeat_len out_len) sched s \<and>
      launch (SDDMMCooKernel binop UseBcast UseIdx ufeat vfeat row col edge_map N M E reduce_size
                ubcast_off vbcast_off ufeat_len vfeat_len out_len) sched s =
      launch (SDDMMCooKernel
                (binop\<lparr>Call := \<lambda>lhs rhs. Call binop lhs (Ptr None (offset rhs))\<rparr>)
                UseBcast UseIdx ufeat vfeat row col edge_map N M E reduce_size
                ubcast_off vbcast_off ufeat_len vfeat_len out_len) sched s \<and>
      launch (SDDMMCsrKernel binop UseBcast UseIdx ufeat vfeat indptr indices edge_map N M E
                reduce_size ubcast_off vbcast_off ufeat_len vfeat_len out_len) sched s =
      launch (SDDMMCsrKernel
                (binop\<lparr>Call := \<lambda>lhs rhs. Call binop lhs (Ptr None (offset rhs))\<rparr>)
                UseBcast UseIdx ufeat vfeat indptr indices edge_map N M E
                reduce_size ubcast_off vbcast_off ufeat_len vfeat_len out_len) sched s)"
proof (intro conjI impI launch_cong)
  fix t and s' :: "'a gmem"
  {
    assume "\<not> use_lhs binop"
    then show "SDDMMCooKernel binop UseBcast UseIdx ufeat vfeat row col edge_map N M E reduce_size
                ubcast_off vbcast_off ufeat_len vfeat_len out_len t s' =
      SDDMMCooKernel binop UseBcast UseIdx ufeat' vfeat row col edge_map N M E reduce_size
                ubcast_off vbcast_off ufeat_len vfeat_len out_len t s'"
      "SDDMMCsrKernel binop UseBcast UseIdx ufeat vfeat indptr indices edge_map N M E
                reduce_size ubcast_off vbcast_off ufeat_len vfeat_len out_len t s' =
      SDDMMCsrKernel binop UseBcast UseIdx ufeat' vfeat indptr indices edge_map N M E
                reduce_size ubcast_off vbcast_off ufeat_len vfeat_len out_len t s'"
      "SDDMMCooKernel binop UseBcast UseIdx ufeat vfeat row col edge_map N M E reduce_size
                ubcast_off vbcast_off ufeat_len vfeat_len out_len t s' =
      SDDMMCooKernel (binop\<lparr>Call := \<lambda>lhs. Call binop (Ptr None (offset lhs))\<rparr>)
                UseBcast UseIdx ufeat vfeat row col edge_map N M E reduce_size
                ubcast_off vbcast_off ufeat_len vfeat_len out_len t s'"
      "SDDMMCsrKernel binop UseBcast UseIdx ufeat vfeat indptr indices edge_map N M E
                reduce_size ubcast_off vbcast_off ufeat_len vfeat_len out_len t s' =
      SDDMMCsrKernel (binop\<lparr>Call := \<lambda>lhs. Call binop (Ptr None (offset lhs))\<rparr>)
                UseBcast UseIdx ufeat vfeat indptr indices edge_map N M E
                reduce_size ubcast_off vbcast_off ufeat_len vfeat_len out_len t s'"
      by (simp_all add: SDDMMCooKernel_def SDDMMCsrKernel_def ptr_add_nullptr)
  }
  {
    assume "\<not> use_rhs binop"
    then show "SDDMMCooKernel binop UseBcast UseIdx ufeat vfeat row col edge_map N M E reduce_size
                ubcast_off vbcast_off ufeat_len vfeat_len out_len t s' =
      SDDMMCooKernel binop UseBcast UseIdx ufeat vfeat' row col edge_map N M E reduce_size
                ubcast_off vbcast_off ufeat_len vfeat_len out_len t s'"
      "SDDMMCsrKernel binop UseBcast UseIdx ufeat vfeat indptr indices edge_map N M E
                reduce_size ubcast_off vbcast_off ufeat_len vfeat_len out_len t s' =
      SDDMMCsrKernel binop UseBcast UseIdx ufeat vfeat' indptr indices edge_map N M E
                reduce_size ubcast_off vbcast_off ufeat_len vfeat_len out_len t s'"
      "SDDMMCooKernel binop UseBcast UseIdx ufeat vfeat row col edge_map N M E reduce_size
                ubcast_off vbcast_off ufeat_len vfeat_len out_len t s' =
      SDDMMCooKernel (binop\<lparr>Call := \<lambda>lhs rhs. Call binop lhs (Ptr None (offset rhs))\<rparr>)
                UseBcast UseIdx ufeat vfeat row col edge_map N M E reduce_size
                ubcast_off vbcast_off ufeat_len vfeat_len out_len t s'"
      "SDDMMCsrKernel binop UseBcast UseIdx ufeat vfeat indptr indices edge_map N M E
                reduce_size ubcast_off vbcast_off ufeat_len vfeat_len out_len t s' =
      SDDMMCsrKernel (binop\<lparr>Call := \<lambda>lhs rhs. Call binop lhs (Ptr None (offset rhs))\<rparr>)
                UseBcast UseIdx ufeat vfeat indptr indices edge_map N M E
                reduce_size ubcast_off vbcast_off ufeat_len vfeat_len out_len t s'"
      by (simp_all add: SDDMMCooKernel_def SDDMMCsrKernel_def ptr_add_nullptr)
  }
qed

theorem unused_side_is_never_read_witness:
  "\<not> use_lhs CopyRhs \<and>
   launch (SDDMMCooKernel CopyRhs False False (array_ptr [1, 2, 3, 4]) (array_ptr [10, 20, 30, 40])
             (array_ptr [0, 0, 1]) (array_ptr [0, 1, 1]) nullptr 2 2 3 1
             nullptr nullptr 2 2 2) (grid_threads 1 1 2 2)
          \<lparr>out_buf = [0, 0, 0, 0, 0, 0], writes = []\<rparr> =
   launch (SDDMMCooKernel CopyRhs False False nullptr (array_ptr [10, 20, 30, 40])
             (array_ptr [0, 0, 1]) (array_ptr [0, 1, 1]) nullptr 2 2 3 1
             nullptr nullptr 2 2 2) (grid_threads 1 1 2 2)
          \<lparr>out_buf = [0, 0, 0, 0, 0, 0], writes = []\<rparr> \<and>
   map_option out_buf
     (launch (SDDMMCooKernel CopyRhs False False nullptr (array_ptr [10, 20, 30, 40])
             (array_ptr [0, 0, 1]) (array_ptr [0, 1, 1]) nullptr 2 2 3 1
             nullptr nullptr 2 2 2) (grid_threads 1 1 2 2)
          \<lparr>out_buf = [0, 0, 0, 0, 0, 0], writes = []\<rparr>) = Some [10, 20, 30, 40, 30, 40]"
proof -
  have h: "\<not> use_lhs CopyRhs" by (simp add: CopyRhs_def)
  have v: "map_option out_buf
     (launch (SDDMMCooKernel CopyRhs False False nullptr (array_ptr [10, 20, 30, 40])
             (array_ptr [0, 0, 1]) (array_ptr [0, 1, 1]) nullptr 2 2 3 1
             nullptr nullptr 2 2 2) (grid_threads 1 1 2 2)
          \<lparr>out_buf = [0, 0, 0, 0, 0, 0], writes = []\<rparr>) = Some [10, 20, 30, 40, 30, 40]"
    by code_simp
  show ?thesis
    by (intro conjI h v
          unused_side_is_never_read[THEN conjunct1, rule_format, OF h, THEN conjunct1])
qed







theorem coo_example_row_1_counterexample:
  "map_option out_buf
     (launch (SDDMMCooKernel Mul False False (array_ptr [1, 2, 3, 4]) (array_ptr [10, 20, 30, 40])
                (array_ptr [0, 0, 1]) (array_ptr [0, 1, 1]) nullptr
                2 2 3 1 nullptr nullptr 2 2 2) (grid_threads 1 1 2 2)
          \<lparr>out_buf = [0, 0, 0, 0, 0, 0], writes = []\<rparr>) \<noteq> Some [10, 40, 20, 80, 90, 160]"
  by code_simp

lemma example_cells:
  "map (\<lambda>c. (nat (cell_index (out_row False nullptr) 2 c),
              out_val Mul False (array_ptr [1, 2, 3, 4]) (array_ptr [10, 20, 30, 40])
                (\<lambda>ty. ldg (ptr_add (array_ptr [0, 0, 1]) ty)) (array_ptr [0, 1, 1])
                1 nullptr nullptr 2 2 (fst c) (snd c)))
     [(0, 0), (0, 1), (1, 0), (1, 1), (2, 0), (2, 1)] =
   [(0, 10), (1, 40), (2, 30), (3, 80), (4, 90), (5, 160)]"
  by code_simp

text \<open>
  C8 (amended). For \<open>N = 2\<close> sources with features \<open>[[1, 2], [3, 4]]\<close>, \<open>M = 2\<close> destinations with
  features \<open>[[10, 20], [30, 40]]\<close>, coordinate edges \<open>row = [0, 0, 1]\<close>, \<open>col = [0, 1, 1]\<close>, no edge
  map, elementwise multiply, \<open>reduce_size = 1\<close> and \<open>out_len = 2\<close>, the coordinate kernel
  leaves output row 0 = \<open>[10, 40]\<close>, row 1 = \<open>[30, 80]\<close> and row 2 = \<open>[90, 160]\<close>, on every grid
  with positive extents: edge 1 joins source 0 with destination 1, and
  \<open>[1 * 30, 2 * 40] = [30, 80]\<close>.
\<close>

theorem coo_example_output:
  fixes s :: "int gmem"
  assumes "0 < nbx" "0 < nby" "0 < ntx" "0 < nty"
    and "schedule_of nbx nby ntx nty sched"
    and "length (out_buf s) = 6"
  shows "\<exists>s'. launch (SDDMMCooKernel Mul False False (array_ptr [1, 2, 3, 4])
                  (array_ptr [10, 20, 30, 40]) (array_ptr [0, 0, 1]) (array_ptr [0, 1, 1]) nullptr
                  2 2 3 1 nullptr nullptr 2 2 2) sched s = Some s' \<and>
              out_buf s' = [10, 40, 30, 80, 90, 160]"
proof -
  let ?eidf = "out_row False nullptr"
  let ?valf = "out_val Mul False (array_ptr [1, 2, 3, 4]) (array_ptr [10, 20, 30, 40])
                (\<lambda>ty. ldg (ptr_add (array_ptr [0, 0, 1]) ty)) (array_ptr [0, 1, 1])
                1 nullptr nullptr 2 2"
  have ok: "kernel_ok Mul False False (array_ptr [1, 2, 3, 4]) (array_ptr [10, 20, 30, 40])
     (\<lambda>e. ldg (ptr_add (array_ptr [0, 0, 1]) e)) (array_ptr [0, 1, 1]) nullptr 3 1
     nullptr nullptr 2 2 2 (int (length (out_buf s)))"
    using example_coo_ok by (simp add: coo_ok_def assms(6))
  have k: "SDDMMCooKernel Mul False False (array_ptr [1, 2, 3, 4])
                  (array_ptr [10, 20, 30, 40]) (array_ptr [0, 0, 1]) (array_ptr [0, 1, 1]) nullptr
                  2 2 3 1 nullptr nullptr 2 2 2 t s0 =
   while_strided 3 (int (blockDim_y t * gridDim_y t))
     (edge_body Mul False False (array_ptr [1, 2, 3, 4]) (array_ptr [10, 20, 30, 40])
        (\<lambda>ty. ldg (ptr_add (array_ptr [0, 0, 1]) ty)) (array_ptr [0, 1, 1]) nullptr
        1 nullptr nullptr 2 2 2
        (int (blockIdx_x t * blockDim_x t + threadIdx_x t)) (int (blockDim_x t * gridDim_x t)))
     (int (blockIdx_y t * blockDim_y t + threadIdx_y t)) s0" for t s0
    by (rule SDDMMCooKernel_edge_body)
  from launch_final[OF ok assms(1-5) k] example_edge_ids_distinct obtain s' where
    run: "launch (SDDMMCooKernel Mul False False (array_ptr [1, 2, 3, 4])
                  (array_ptr [10, 20, 30, 40]) (array_ptr [0, 0, 1]) (array_ptr [0, 1, 1]) nullptr
                  2 2 3 1 nullptr nullptr 2 2 2) sched s = Some s'"
    and len: "length (out_buf s') = length (out_buf s)"
    and cells: "\<And>c. c \<in> {0..<3} \<times> {0..<2} \<Longrightarrow>
        out_buf s' ! nat (cell_index ?eidf 2 c) = ?valf (fst c) (snd c)"
    by blast
  have nth: "out_buf s' ! fst (nat (cell_index ?eidf 2 c), ?valf (fst c) (snd c)) =
             snd (nat (cell_index ?eidf 2 c), ?valf (fst c) (snd c))"
    if "c \<in> set [(0, 0), (0, 1), (1, 0), (1, 1), (2, 0), (2, 1)]" for c
    using cells[of c] that by auto
  have "\<forall>x \<in> set (map (\<lambda>c. (nat (cell_index ?eidf 2 c), ?valf (fst c) (snd c)))
                [(0, 0), (0, 1), (1, 0), (1, 1), (2, 0), (2, 1)]). out_buf s' ! fst x = snd x"
    unfolding set_map using nth by blast
  then have vals: "out_buf s' ! 0 = 10" "out_buf s' ! 1 = 40" "out_buf s' ! 2 = 30"
    "out_buf s' ! 3 = 80" "out_buf s' ! 4 = 90" "out_buf s' ! 5 = 160"
    unfolding example_cells by simp_all
  have "length (out_buf s') = 6" using len assms(6) by simp
  then have "out_buf s' = map ((!) (out_buf s')) [0..<6]"
    using map_nth[of "out_buf s'"] by simp
  also have "[0..<6] = [0, 1, 2, 3, 4, 5]" by code_simp
  finally have "out_buf s' = [out_buf s' ! 0, out_buf s' ! 1, out_buf s' ! 2,
      out_buf s' ! 3, out_buf s' ! 4, out_buf s' ! 5]"
    by (simp del: One_nat_def)
  then have "out_buf s' = [10, 40, 30, 80, 90, 160]"
    by (simp only: vals)
  with run show ?thesis by blast
qed

theorem coo_example_output_witness:
  "(0::nat) < 1 \<and> (0::nat) < 2 \<and> schedule_of 1 1 2 2 (grid_threads 1 1 2 2) \<and>
   length (out_buf \<lparr>out_buf = [0, 0, 0, 0, 0, 0::int], writes = []\<rparr>) = 6 \<and>
   (\<exists>s'. launch (SDDMMCooKernel Mul False False (array_ptr [1, 2, 3, 4])
                  (array_ptr [10, 20, 30, 40]) (array_ptr [0, 0, 1]) (array_ptr [0, 1, 1]) nullptr
                  2 2 3 1 nullptr nullptr 2 2 2) (grid_threads 1 1 2 2)
             \<lparr>out_buf = [0, 0, 0, 0, 0, 0], writes = []\<rparr> = Some s' \<and>
          out_buf s' = [10, 40, 30, 80, 90, 160])"
proof -
  have p1: "(0::nat) < 1" and p2: "(0::nat) < 2" by simp_all
  have l: "length (out_buf \<lparr>out_buf = [0, 0, 0, 0, 0, 0::int], writes = []\<rparr>) = 6" by simp
  show ?thesis
    by (intro conjI p1 p2 example_schedule l
          coo_example_output[OF p1 p1 p2 p2 example_schedule l])
qed

end
